theory Spec2Isabelle
  imports Main "HOL-Library.AList"
begin

section \<open>JSON values and JavaScript property access\<close>

text \<open>
  The game keeps one JSON document in localStorage and exchanges JSON envelopes between
  tabs. A JavaScript object is an association list of its own properties, in the order in
  which the language enumerates them; \<open>undefined\<close> is \<open>None\<close> of \<open>json option\<close>.
  Numbers are the integers the game uses (tab ids, counters); strings are sequences of
  8-bit characters.
\<close>

datatype json =
    JNull
  | JBool bool
  | JNum int
  | JStr string
  | JArr "json list"
  | JObj "(string \<times> json) list"

type_synonym obj = "(string \<times> json) list"

text \<open>
  \<open>TypeError\<close> and \<open>QuotaExceededError\<close> are the exceptions the code can raise.
  \<open>Unmodelled\<close> is no exception. It marks a step after which the program goes on with
  something that is not JSON data: an array with a hole or a named property, an object
  whose prototype was replaced, a built-in function read as if it were a record, a text
  or an array coerced to a number. The model stops at such a step.
\<close>

datatype error = TypeError | QuotaExceededError | Unmodelled

text \<open>The decimal digits of a natural number and of an integer.\<close>

definition digit :: "nat \<Rightarrow> char" where
  "digit d = ''0123456789'' ! d"

fun dec :: "nat \<Rightarrow> string" where
  "dec n = (if n < 10 then [digit n] else dec (n div 10) @ [digit (n mod 10)])"

definition dec_int :: "int \<Rightarrow> string" where
  "dec_int i = (if i < 0 then CHR ''-'' # dec (nat (- i)) else dec (nat i))"

text \<open>
  A tab id is passed as a number (\<open>tabNum = 1\<close>) or as a string (\<open>'3'\<close>).
  \<open>String(tabId)\<close> leaves a string as it is and prints a number by its decimal digits as
  long as it is a safe integer; a larger number can lose digits or be printed with an
  exponent, which is not modelled.
\<close>

datatype tab_id = TabNum int | TabStr string

definition MAX_SAFE_INTEGER :: int where
  "MAX_SAFE_INTEGER = 9007199254740991"

definition String :: "tab_id \<Rightarrow> string option" where
  "String tabId =
     (case tabId of
        TabNum n \<Rightarrow> if \<bar>n\<bar> \<le> MAX_SAFE_INTEGER then Some (dec_int n) else None
      | TabStr s \<Rightarrow> Some s)"

fun tab_json :: "tab_id \<Rightarrow> json" where
  "tab_json (TabNum n) = JNum n"
| "tab_json (TabStr s) = JStr s"

text \<open>
  The number a string of decimal digits denotes (the empty string denotes 0), and the
  array index a property name stands for: the name has to be the canonical text of a
  number below \<open>2\<^sup>3\<^sup>2 - 1\<close>.
\<close>

definition digit_value :: "char \<Rightarrow> nat option" where
  "digit_value c =
     map_of [(CHR ''0'', 0), (CHR ''1'', 1), (CHR ''2'', 2), (CHR ''3'', 3), (CHR ''4'', 4),
             (CHR ''5'', 5), (CHR ''6'', 6), (CHR ''7'', 7), (CHR ''8'', 8), (CHR ''9'', 9)] c"

fun decimal_from :: "nat \<Rightarrow> string \<Rightarrow> nat option" where
  "decimal_from n [] = Some n"
| "decimal_from n (c # cs) =
     (case digit_value c of None \<Rightarrow> None | Some d \<Rightarrow> decimal_from (10 * n + d) cs)"

definition decimal :: "string \<Rightarrow> nat option" where
  "decimal s = decimal_from 0 s"

definition index_of :: "string \<Rightarrow> nat option" where
  "index_of k =
     (case decimal k of
        None \<Rightarrow> None
      | Some i \<Rightarrow> if dec i = k \<and> i < 4294967295 then Some i else None)"

text \<open>
  The own properties of a value other than \<open>undefined\<close> and \<open>null\<close>: those of an
  object; the elements and the \<open>length\<close> of an array; the characters and the
  \<open>length\<close> of a string; none for a boolean or a number.
\<close>

fun own :: "json \<Rightarrow> string \<Rightarrow> json option" where
  "own (JObj ps) k = map_of ps k"
| "own (JArr xs) k =
     (if k = ''length'' then Some (JNum (int (length xs)))
      else case index_of k of
             None \<Rightarrow> None
           | Some i \<Rightarrow> if i < length xs then Some (xs ! i) else None)"
| "own (JStr s) k =
     (if k = ''length'' then Some (JNum (int (length s)))
      else case index_of k of
             None \<Rightarrow> None
           | Some i \<Rightarrow> if i < length s then Some (JStr [s ! i]) else None)"
| "own v k = None"

text \<open>
  The names that the prototypes of the language define (ECMAScript 2024 with its
  Annex B). Every value inherits those of \<open>Object.prototype\<close>; an array, a string, a
  number and a boolean inherit those of their own prototype before. What is found there
  is a built-in function, or the prototype itself under \<open>__proto__\<close>.
\<close>

definition Object_prototype :: "string list" where
  "Object_prototype =
     [''constructor'', ''__defineGetter__'', ''__defineSetter__'', ''hasOwnProperty'',
      ''__lookupGetter__'', ''__lookupSetter__'', ''isPrototypeOf'', ''propertyIsEnumerable'',
      ''toString'', ''valueOf'', ''__proto__'', ''toLocaleString'']"

definition Array_prototype :: "string list" where
  "Array_prototype =
     [''at'', ''concat'', ''copyWithin'', ''entries'', ''every'', ''fill'', ''filter'', ''find'',
      ''findIndex'', ''findLast'', ''findLastIndex'', ''flat'', ''flatMap'', ''forEach'',
      ''includes'', ''indexOf'', ''join'', ''keys'', ''lastIndexOf'', ''map'', ''pop'', ''push'',
      ''reduce'', ''reduceRight'', ''reverse'', ''shift'', ''slice'', ''some'', ''sort'',
      ''splice'', ''toReversed'', ''toSorted'', ''toSpliced'', ''unshift'', ''values'', ''with'']"

definition String_prototype :: "string list" where
  "String_prototype =
     [''anchor'', ''at'', ''big'', ''blink'', ''bold'', ''charAt'', ''charCodeAt'',
      ''codePointAt'', ''concat'', ''endsWith'', ''fixed'', ''fontcolor'', ''fontsize'',
      ''includes'', ''indexOf'', ''isWellFormed'', ''italics'', ''lastIndexOf'', ''link'',
      ''localeCompare'', ''match'', ''matchAll'', ''normalize'', ''padEnd'', ''padStart'',
      ''repeat'', ''replace'', ''replaceAll'', ''search'', ''slice'', ''small'', ''split'',
      ''startsWith'', ''strike'', ''sub'', ''substr'', ''substring'', ''sup'',
      ''toLocaleLowerCase'', ''toLocaleUpperCase'', ''toLowerCase'', ''toUpperCase'',
      ''toWellFormed'', ''trim'', ''trimEnd'', ''trimLeft'', ''trimRight'', ''trimStart'']"

definition Number_prototype :: "string list" where
  "Number_prototype = [''toExponential'', ''toFixed'', ''toPrecision'']"

fun inherited :: "json \<Rightarrow> string \<Rightarrow> bool" where
  "inherited JNull k = False"
| "inherited (JArr xs) k = (k \<in> set (Array_prototype @ Object_prototype))"
| "inherited (JStr s) k = (k \<in> set (String_prototype @ Object_prototype))"
| "inherited (JNum n) k = (k \<in> set (Number_prototype @ Object_prototype))"
| "inherited v k = (k \<in> set Object_prototype)"

text \<open>
  What an expression \<open>v[k]\<close> evaluates to: \<open>undefined\<close>, a JSON value, or a built-in
  function or prototype object of the language. Reading a property of \<open>undefined\<close> or
  \<open>null\<close> throws a TypeError; otherwise an own property hides an inherited one.
\<close>

datatype found = Undefined | Json json | Builtin

definition get_prop :: "json option \<Rightarrow> string \<Rightarrow> error + found" where
  "get_prop v k =
     (case v of
        None \<Rightarrow> Inl TypeError
      | Some JNull \<Rightarrow> Inl TypeError
      | Some j \<Rightarrow>
          (case own j k of
             Some x \<Rightarrow> Inr (Json x)
           | None \<Rightarrow> if inherited j k then Inr Builtin else Inr Undefined))"

text \<open>
  \<open>v.k\<close> where the code goes on to use the result as data. The names the game reads
  this way (\<open>tabs\<close>, \<open>player\<close>, \<open>state\<close>, ...) are defined by no prototype; a
  built-in in that place is not followed.
\<close>

definition get_field :: "json option \<Rightarrow> string \<Rightarrow> error + json option" where
  "get_field v k =
     (case get_prop v k of
        Inl e \<Rightarrow> Inl e
      | Inr Undefined \<Rightarrow> Inr None
      | Inr (Json x) \<Rightarrow> Inr (Some x)
      | Inr Builtin \<Rightarrow> Inl Unmodelled)"

text \<open>\<open>v?.k\<close>: \<open>undefined\<close> when \<open>v\<close> is \<open>undefined\<close> or \<open>null\<close>.\<close>

definition opt_field :: "json option \<Rightarrow> string \<Rightarrow> error + json option" where
  "opt_field v k =
     (case v of
        None \<Rightarrow> Inr None
      | Some JNull \<Rightarrow> Inr None
      | Some j \<Rightarrow> get_field v k)"

text \<open>The own property \<open>k\<close> of an object, as a document holds it; nothing for any other value.\<close>

fun opt_prop :: "json option \<Rightarrow> string \<Rightarrow> json option" where
  "opt_prop (Some (JObj ps)) k = map_of ps k"
| "opt_prop v k = None"

text \<open>
  An object gets or replaces the own property \<open>k\<close>. A property that exists keeps its
  place. A new one whose name is an array index goes among the index properties, in
  ascending order, before all other properties; any other new property goes last.
\<close>

fun ins :: "nat \<Rightarrow> string \<Rightarrow> json \<Rightarrow> obj \<Rightarrow> obj" where
  "ins i k x [] = [(k, x)]"
| "ins i k x (p # ps) =
     (case index_of (fst p) of
        None \<Rightarrow> (k, x) # p # ps
      | Some j \<Rightarrow> if j < i then p # ins i k x ps else (k, x) # p # ps)"

definition set_own :: "string \<Rightarrow> json \<Rightarrow> obj \<Rightarrow> obj" where
  "set_own k x ps =
     (if map_of ps k \<noteq> None then AList.update k x ps
      else case index_of k of
             None \<Rightarrow> ps @ [(k, x)]
           | Some i \<Rightarrow> ins i k x ps)"

text \<open>
  \<open>v[k] = x\<close> in a module (strict mode); the result is \<open>v\<close> after the assignment.
  \<^item> \<open>undefined\<close> and \<open>null\<close> throw a TypeError.
  \<^item> An object gets the own property. Under \<open>__proto__\<close>, unless the object has an
    own property of that name, the assignment runs the inherited setter: an object, an
    array or \<open>null\<close> becomes the new prototype, any other value is ignored.
  \<^item> An array takes an element inside its bounds or right at its end. An index further
    out leaves holes, and any other name (\<open>length\<close> included) is not an element.
  \<^item> A string, a number or a boolean throws a TypeError, except under \<open>__proto__\<close>,
    where the setter returns without doing anything.
\<close>

fun is_proto :: "json \<Rightarrow> bool" where
  "is_proto JNull = True"
| "is_proto (JArr xs) = True"
| "is_proto (JObj ps) = True"
| "is_proto v = False"

fun put :: "json option \<Rightarrow> string \<Rightarrow> json \<Rightarrow> error + json" where
  "put None k x = Inl TypeError"
| "put (Some JNull) k x = Inl TypeError"
| "put (Some (JObj ps)) k x =
     (if k = ''__proto__'' \<and> map_of ps k = None
      then (if is_proto x then Inl Unmodelled else Inr (JObj ps))
      else Inr (JObj (set_own k x ps)))"
| "put (Some (JArr xs)) k x =
     (case index_of k of
        Some i \<Rightarrow>
          if i < length xs then Inr (JArr (xs[i := x]))
          else if i = length xs then Inr (JArr (xs @ [x]))
          else Inl Unmodelled
      | None \<Rightarrow>
          if k = ''__proto__'' \<and> \<not> is_proto x then Inr (JArr xs) else Inl Unmodelled)"
| "put (Some v) k x = (if k = ''__proto__'' then Inr v else Inl TypeError)"

text \<open>
  The own enumerable properties of a value, as object spread and rest destructuring
  copy them: those of an object; the indexed elements of an array or a string; none
  for \<open>undefined\<close>, \<open>null\<close>, booleans, numbers and built-ins.
\<close>

definition index_props :: "json list \<Rightarrow> obj" where
  "index_props xs = zip (map dec [0..<length xs]) xs"

fun own_props :: "json option \<Rightarrow> obj" where
  "own_props (Some (JObj ps)) = ps"
| "own_props (Some (JArr xs)) = index_props xs"
| "own_props (Some (JStr s)) = index_props (map (\<lambda>c. JStr [c]) s)"
| "own_props _ = []"

fun props :: "found \<Rightarrow> obj" where
  "props (Json j) = own_props (Some j)"
| "props v = []"

text \<open>\<open>{ ...a, ...b }\<close>: a fresh object receiving the properties of each source in turn.\<close>

definition assign :: "obj \<Rightarrow> obj \<Rightarrow> obj" where
  "assign target src = fold (\<lambda>(k, v). set_own k v) src target"

definition spread :: "obj list \<Rightarrow> obj" where
  "spread srcs = fold (\<lambda>src target. assign target src) srcs []"

text \<open>\<open>a ?? b\<close>\<close>

fun nullish :: "json option \<Rightarrow> json \<Rightarrow> json" where
  "nullish None d = d"
| "nullish (Some JNull) d = d"
| "nullish (Some v) d = v"


section \<open>The host: localStorage, BroadcastChannel and the live tabs\<close>

text \<open>
  A string held in localStorage is represented by what \<open>JSON.parse\<close> makes of it:
  \<open>Serialized j\<close> is the text \<open>JSON.stringify\<close> writes for \<open>j\<close>, which parses back
  to \<open>j\<close>; \<open>Unparsable s\<close> is a text \<open>s\<close> that \<open>JSON.parse\<close> rejects with a
  SyntaxError (the empty string among them).
\<close>

datatype stored = Serialized json | Unparsable string

definition JSON_stringify :: "json \<Rightarrow> stored" where
  "JSON_stringify j = Serialized j"

fun JSON_parse :: "stored \<Rightarrow> json option" where
  "JSON_parse (Serialized j) = Some j"
| "JSON_parse (Unparsable s) = None"

fun truthy :: "stored \<Rightarrow> bool" where
  "truthy (Serialized j) = True"
| "truthy (Unparsable s) = (s \<noteq> [])"

text \<open>
  All tabs of the origin share one localStorage and, where the browser has it, the
  BroadcastChannel named \<open>feedbackloop\<close>. Each live tab is an execution context with its
  own copy of the modules; a context is named by a number. \<open>listenerMap w c\<close> are the
  callbacks context \<open>c\<close> has registered with \<open>onMessage\<close> (the keys of channel.js's
  \<open>listenerMap\<close>), and \<open>delivered\<close> logs every call of a callback: context, callback,
  message.
\<close>

record world =
  items :: "string \<Rightarrow> stored option"
  quota_exceeded :: bool
  hasBroadcastChannel :: bool
  live :: "nat list"
  listenerMap :: "nat \<Rightarrow> nat list"
  delivered :: "(nat \<times> nat \<times> json) list"

definition STORAGE_KEY :: string where
  "STORAGE_KEY = ''feedbackloop_state''"

definition LS_KEY :: string where
  "LS_KEY = ''__feedbackloop_channel__''"

text \<open>
  channel.js, \<open>lsFallbackListen\<close>: what the storage-event handler hands to the callback,
  if anything. A value that does not parse, or parses to \<open>null\<close> (destructuring it
  throws), is dropped inside the \<open>try\<close>.
\<close>

definition lsFallbackListen :: "string \<Rightarrow> stored option \<Rightarrow> json option" where
  "lsFallbackListen key newValue =
     (if key \<noteq> LS_KEY then None
      else case newValue of
        None \<Rightarrow> None
      | Some t \<Rightarrow>
          if \<not> truthy t then None
          else (case JSON_parse t of
            None \<Rightarrow> None
          | Some JNull \<Rightarrow> None
          | Some parsed \<Rightarrow> Some (JObj (AList.delete ''_nonce'' (own_props (Some parsed))))))"

text \<open>
  The calls one message makes: every callback of every live context other than
  \<open>src\<close>, in order.
\<close>

definition fanout :: "nat option \<Rightarrow> json \<Rightarrow> world \<Rightarrow> (nat \<times> nat \<times> json) list" where
  "fanout src msg w =
     concat (map (\<lambda>c. map (\<lambda>cb. (c, cb, msg)) (listenerMap w c))
                 (filter (\<lambda>c. Some c \<noteq> src) (live w)))"

text \<open>
  \<open>localStorage.setItem\<close> called in context \<open>me\<close>. It throws when the quota is
  exceeded. When the value changes, the browser fires a storage event in every other
  live context; without BroadcastChannel the callbacks hang on that event through
  \<open>lsFallbackListen\<close>.
\<close>

definition setItem :: "nat \<Rightarrow> string \<Rightarrow> stored \<Rightarrow> world \<Rightarrow> (error + unit) \<times> world" where
  "setItem me key v w =
     (if quota_exceeded w then (Inl QuotaExceededError, w)
      else
        let w' = w\<lparr>items := (items w)(key \<mapsto> v)\<rparr> in
        if items w key = Some v \<or> hasBroadcastChannel w then (Inr (), w')
        else (case lsFallbackListen key (Some v) of
               None \<Rightarrow> (Inr (), w')
             | Some message \<Rightarrow>
                 (Inr (), w'\<lparr>delivered := delivered w' @ fanout (Some me) message w'\<rparr>)))"

text \<open>
  \<open>postMessage\<close> on a BroadcastChannel object: every other BroadcastChannel object of
  that name gets the message. The callbacks hang on channel.js's object, so a message
  posted there (\<open>src = Some me\<close>) skips the sender's own context, and one posted on
  state.js's private object (\<open>src = None\<close>) reaches every live context.
\<close>

definition postMessage :: "nat option \<Rightarrow> json \<Rightarrow> world \<Rightarrow> world" where
  "postMessage src msg w = w\<lparr>delivered := delivered w @ fanout src msg w\<rparr>"

section \<open>state.js\<close>

definition tab_default :: "obj \<Rightarrow> json" where
  "tab_default extra =
     JObj ([(''visitCount'', JNum 0), (''state'', JStr ''unvisited'')] @ extra)"

definition defaultState :: json where
  "defaultState = JObj
     [(''tabs'', JObj
        [(''1'', tab_default [(''puzzleSolved'', JBool False), (''symbolsFound'', JArr []),
                             (''floorRevealed'', JBool False)]),
         (''2'', tab_default [(''puzzleSolved'', JBool False), (''symbolsFound'', JArr [])]),
         (''3'', tab_default [(''puzzleSolved'', JBool False), (''backtrackedTo1'', JBool False)]),
         (''4'', tab_default [(''fragmentsCollected'', JArr [])])]),
      (''player'', JObj
        [(''hasFlashlight'', JBool False), (''codeFragments'', JArr []),
         (''mindFragments'', JArr [])]),
      (''narrative'', JObj [(''shown'', JArr [])]),
      (''meta'', JObj
        [(''currentTab'', JNull), (''highestTabUnlocked'', JNum 1),
         (''gameComplete'', JBool False), (''actTwoComplete'', JBool False)])]"

text \<open>
  \<open>_broadcast\<close>: state.js holds its own BroadcastChannel object, \<open>null\<close> when the
  constructor is missing; then nothing is sent.
\<close>

definition envelope :: "string \<Rightarrow> json \<Rightarrow> json \<Rightarrow> json" where
  "envelope type fromTab payload =
     JObj [(''type'', JStr type), (''fromTab'', fromTab), (''payload'', payload)]"

definition broadcast :: "json \<Rightarrow> json \<Rightarrow> world \<Rightarrow> world" where
  "broadcast fromTab payload w =
     (if \<not> hasBroadcastChannel w then w
      else postMessage None
             (envelope ''STATE_CHANGE'' (nullish (Some fromTab) JNull)
                (nullish (Some payload) (JObj []))) w)"

definition getState :: "nat \<Rightarrow> world \<Rightarrow> (error + json) \<times> world" where
  "getState me w =
     (let raw = items w STORAGE_KEY;
          parsed = (case raw of
                      None \<Rightarrow> None
                    | Some t \<Rightarrow> if truthy t then JSON_parse t else None)
      in case parsed of
           Some d \<Rightarrow> (Inr d, w)
         | None \<Rightarrow>
            (let initial = defaultState in
             case setItem me STORAGE_KEY (JSON_stringify initial) w of
               (Inl e, w') \<Rightarrow> (Inl e, w')
             | (Inr u, w') \<Rightarrow> (Inr initial, w')))"

definition setState ::
  "(json \<Rightarrow> error + json) \<Rightarrow> json \<Rightarrow> nat \<Rightarrow> world \<Rightarrow> (error + json) \<times> world" where
  "setState updater fromTab me w =
     (case getState me w of
        (Inl e, w1) \<Rightarrow> (Inl e, w1)
      | (Inr current, w1) \<Rightarrow>
          (case updater current of
             Inl e \<Rightarrow> (Inl e, w1)
           | Inr next \<Rightarrow>
               (case setItem me STORAGE_KEY (JSON_stringify next) w1 of
                  (Inl e, w2) \<Rightarrow> (Inl e, w2)
                | (Inr u, w2) \<Rightarrow> (Inr next, broadcast fromTab next w2))))"


text \<open>The updater of \<open>updateTabState\<close>: \<open>state.tabs[id] = { ...state.tabs[id], ...updates }\<close>.\<close>

definition merge_tab :: "string \<Rightarrow> obj \<Rightarrow> json \<Rightarrow> error + json" where
  "merge_tab tid updates state =
     (case get_field (Some state) ''tabs'' of
        Inl e \<Rightarrow> Inl e
      | Inr tabs \<Rightarrow>
          (case get_prop tabs tid of
             Inl e \<Rightarrow> Inl e
           | Inr old \<Rightarrow>
               (case put tabs tid (JObj (spread [props old, updates])) of
                  Inl e \<Rightarrow> Inl e
                | Inr tabs' \<Rightarrow> put (Some state) ''tabs'' tabs')))"

definition updateTabState ::
  "tab_id \<Rightarrow> obj \<Rightarrow> nat \<Rightarrow> world \<Rightarrow> (error + json) \<times> world" where
  "updateTabState tabId updates me w =
     (case String tabId of
        None \<Rightarrow> (Inl Unmodelled, w)
      | Some tid \<Rightarrow> setState (merge_tab tid updates) (tab_json tabId) me w)"

definition resetState :: "nat \<Rightarrow> world \<Rightarrow> (error + json) \<times> world" where
  "resetState me w =
     (let initial = defaultState in
      case setItem me STORAGE_KEY (JSON_stringify initial) w of
        (Inl e, w') \<Rightarrow> (Inl e, w')
      | (Inr u, w') \<Rightarrow> (Inr initial, broadcast JNull initial w'))"

section \<open>channel.js\<close>

text \<open>
  The argument of \<open>onMessage\<close> and \<open>removeListener\<close>: a function, named by a number
  (two references to one function carry the same number), or any other value.
\<close>

datatype jsval = Function nat | Value json

text \<open>
  \<open>lsFallbackPost\<close>: the envelope with a nonce, serialised and written under
  \<open>LS_KEY\<close>; a failing write is caught and dropped. The nonce,
  \<open>Date.now() + Math.random()\<close>, is an input.
\<close>

definition wrapped :: "json \<Rightarrow> int \<Rightarrow> stored" where
  "wrapped env nonce =
     JSON_stringify (JObj (spread [own_props (Some env), [(''_nonce'', JNum nonce)]]))"

definition lsFallbackPost :: "json \<Rightarrow> int \<Rightarrow> nat \<Rightarrow> world \<Rightarrow> (error + unit) \<times> world" where
  "lsFallbackPost env nonce me w =
     (case setItem me LS_KEY (wrapped env nonce) w of
        (Inl e, w') \<Rightarrow> (Inr (), w')
      | (Inr u, w') \<Rightarrow> (Inr (), w'))"

text \<open>
  \<open>send(type, payload, fromTab)\<close>. A type outside \<open>VALID_TYPES\<close> only writes a
  warning to the console, which is not part of the model.
\<close>

definition send ::
  "string \<Rightarrow> json \<Rightarrow> json \<Rightarrow> int \<Rightarrow> nat \<Rightarrow> world \<Rightarrow> (error + unit) \<times> world" where
  "send type payload fromTab nonce me w =
     (let env = envelope type fromTab payload in
      if hasBroadcastChannel w then (Inr (), postMessage (Some me) env w)
      else lsFallbackPost env nonce me w)"

definition onMessage :: "jsval \<Rightarrow> nat \<Rightarrow> world \<Rightarrow> (error + unit) \<times> world" where
  "onMessage callback me w =
     (case callback of
        Value v \<Rightarrow> (Inl TypeError, w)
      | Function cb \<Rightarrow>
          if cb \<in> set (listenerMap w me) then (Inr (), w)
          else (Inr (), w\<lparr>listenerMap := (listenerMap w)(me := listenerMap w me @ [cb])\<rparr>))"


section \<open>Reading the document\<close>

text \<open>\<open>state.tabs?.[id]\<close> and \<open>state.tabs?.[id]?.[field]\<close> of a document whose records are objects.\<close>

definition tab_record :: "json \<Rightarrow> string \<Rightarrow> json option" where
  "tab_record d tid = opt_prop (opt_prop (Some d) ''tabs'') tid"

definition tab_field :: "json \<Rightarrow> string \<Rightarrow> string \<Rightarrow> json option" where
  "tab_field d tid field = opt_prop (tab_record d tid) field"

text \<open>The document now in localStorage, if the stored text parses.\<close>

definition persisted :: "world \<Rightarrow> json option" where
  "persisted w = (case items w STORAGE_KEY of None \<Rightarrow> None | Some t \<Rightarrow> JSON_parse t)"

text \<open>JavaScript truthiness of a document value.\<close>

fun falsy :: "json option \<Rightarrow> bool" where
  "falsy None = True"
| "falsy (Some JNull) = True"
| "falsy (Some (JBool b)) = (\<not> b)"
| "falsy (Some (JNum n)) = (n = 0)"
| "falsy (Some (JStr s)) = (s = [])"
| "falsy (Some v) = False"

text \<open>\<open>state.getState().player[field]\<close>, as the levels read a collection.\<close>

definition player_field :: "string \<Rightarrow> nat \<Rightarrow> world \<Rightarrow> (error + json option) \<times> world" where
  "player_field field me w =
     (case getState me w of
        (Inl e, w1) \<Rightarrow> (Inl e, w1)
      | (Inr s, w1) \<Rightarrow>
          (case get_field (Some s) ''player'' of
             Inl e \<Rightarrow> (Inl e, w1)
           | Inr player \<Rightarrow>
               (case get_field player field of
                  Inl e \<Rightarrow> (Inl e, w1)
                | Inr v \<Rightarrow> (Inr v, w1))))"

text \<open>\<open>v || []\<close>\<close>

definition or_empty :: "json option \<Rightarrow> json" where
  "or_empty v = (case v of None \<Rightarrow> JArr [] | Some x \<Rightarrow> if falsy v then JArr [] else x)"

definition read_collection :: "string \<Rightarrow> nat \<Rightarrow> world \<Rightarrow> (error + json) \<times> world" where
  "read_collection field me w =
     (case player_field field me w of
        (Inl e, w1) \<Rightarrow> (Inl e, w1)
      | (Inr v, w1) \<Rightarrow> (Inr (or_empty v), w1))"

text \<open>
  \<open>v >= n\<close> for a whole number \<open>n\<close>. \<open>undefined\<close> becomes NaN and compares false;
  \<open>null\<close> counts as 0, \<open>false\<close> as 0 and \<open>true\<close> as 1; a string of decimal digits
  counts as the number it denotes. What any other string, an array or an object is
  converted to is not modelled.
\<close>

fun ge :: "json option \<Rightarrow> int \<Rightarrow> error + bool" where
  "ge None n = Inr False"
| "ge (Some JNull) n = Inr (n \<le> 0)"
| "ge (Some (JBool b)) n = Inr (n \<le> (if b then 1 else 0))"
| "ge (Some (JNum m)) n = Inr (n \<le> m)"
| "ge (Some (JStr s)) n =
     (case decimal s of None \<Rightarrow> Inl Unmodelled | Some m \<Rightarrow> Inr (n \<le> int m))"
| "ge (Some v) n = Inl Unmodelled"

text \<open>\<open>v.length >= n\<close>\<close>

definition length_ge :: "json option \<Rightarrow> int \<Rightarrow> error + bool" where
  "length_ge v n = (case get_field v ''length'' of Inl e \<Rightarrow> Inl e | Inr len \<Rightarrow> ge len n)"

text \<open>
  \<open>xs.includes(v)\<close> for a string \<open>v\<close>: membership in an array, containment in a
  string. No other JSON value has a method \<open>includes\<close>, so the call throws a TypeError.
\<close>

fun starts_with :: "string \<Rightarrow> string \<Rightarrow> bool" where
  "starts_with [] s = True"
| "starts_with (c # cs) [] = False"
| "starts_with (c # cs) (d # ds) = (c = d \<and> starts_with cs ds)"

fun contains :: "string \<Rightarrow> string \<Rightarrow> bool" where
  "contains [] v = (v = [])"
| "contains (c # cs) v = (starts_with v (c # cs) \<or> contains cs v)"

fun call_includes :: "json option \<Rightarrow> string \<Rightarrow> error + bool" where
  "call_includes (Some (JArr xs)) v = Inr (JStr v \<in> set xs)"
| "call_includes (Some (JStr s)) v = Inr (contains s v)"
| "call_includes xs v = Inl TypeError"

text \<open>
  \<open>if (!xs.includes(v)) xs.push(v)\<close>; the result is \<open>xs\<close> afterwards. A string has no
  method \<open>push\<close>: the call throws unless the string already contains \<open>v\<close>.
\<close>

definition push_unique :: "json option \<Rightarrow> string \<Rightarrow> error + json" where
  "push_unique xs v =
     (case call_includes xs v of
        Inl e \<Rightarrow> Inl e
      | Inr has \<Rightarrow>
          (case xs of
             Some (JArr ys) \<Rightarrow> Inr (JArr (if has then ys else ys @ [JStr v]))
           | Some x \<Rightarrow> if has then Inr x else Inl TypeError
           | None \<Rightarrow> Inl TypeError))"

text \<open>
  \<open>new Set(v)\<close>: an array or a string is iterated, \<open>null\<close> gives the empty set, any
  other JSON value is not iterable.
\<close>

fun new_Set :: "json \<Rightarrow> error + unit" where
  "new_Set JNull = Inr ()"
| "new_Set (JArr xs) = Inr ()"
| "new_Set (JStr s) = Inr ()"
| "new_Set v = Inl TypeError"

text \<open>A value that has to be there for the code to go on: \<open>undefined\<close> has no property to assign.\<close>

fun defined :: "json option \<Rightarrow> error + json" where
  "defined None = Inl TypeError"
| "defined (Some v) = Inr v"

section \<open>levels/level1.js\<close>

text \<open>
  The variables of one run of \<open>init\<close> that the store and the bus depend on. Calls into
  the renderer, audio, favicon and narrator modules and into the DOM are left out: they
  neither read nor write the document or the bus. \<open>THREE\<close> says whether
  \<open>window.THREE\<close> is loaded.
\<close>

record level1 =
  THREE :: bool
  isReturn :: bool
  is3DMode :: bool
  entered3D :: bool
  bonusSymbolPlaced :: bool
  bonusSymbolCollected :: bool

text \<open>
  \<open>_enter3D\<close>, up to the set of collected mind fragments it builds for the scene;
  between the write of \<open>3d\<close> and that set the function touches neither store nor bus.
\<close>

definition enter3D :: "nat \<Rightarrow> level1 \<times> world \<Rightarrow> (error + unit) \<times> level1 \<times> world" where
  "enter3D me lw =
     (case lw of (l, w) \<Rightarrow>
        if \<not> THREE l then (Inr (), l, w)
        else (case updateTabState (TabNum 1) [(''state'', JStr ''3d'')] me w of
                (Inl e, w1) \<Rightarrow> (Inl e, l, w1)
              | (Inr d, w1) \<Rightarrow>
                  (case read_collection ''mindFragments'' me w1 of
                     (Inl e, w2) \<Rightarrow> (Inl e, l, w2)
                   | (Inr collected, w2) \<Rightarrow>
                       (case new_Set collected of
                          Inl e \<Rightarrow> (Inl e, l, w2)
                        | Inr alreadyCollected \<Rightarrow> (Inr (), l, w2)))))"

definition tryEnter3D :: "nat \<Rightarrow> level1 \<times> world \<Rightarrow> (error + unit) \<times> level1 \<times> world" where
  "tryEnter3D me lw =
     (case lw of (l, w) \<Rightarrow>
        if entered3D l then (Inr (), l, w)
        else (case getState me w of
                (Inl e, w1) \<Rightarrow> (Inl e, l, w1)
              | (Inr s, w1) \<Rightarrow>
                  (case get_field (Some s) ''meta'' of
                     Inl e \<Rightarrow> (Inl e, l, w1)
                   | Inr meta \<Rightarrow>
                       (case get_field meta ''gameComplete'' of
                          Inl e \<Rightarrow> (Inl e, l, w1)
                        | Inr gc \<Rightarrow>
                            if gc = Some (JBool True)
                            then enter3D me (l\<lparr>entered3D := True\<rparr>, w1)
                            else (Inr (), l, w1)))))"

definition placeBonusSymbol :: "nat \<Rightarrow> level1 \<times> world \<Rightarrow> (error + unit) \<times> level1 \<times> world" where
  "placeBonusSymbol me lw =
     (case lw of (l, w) \<Rightarrow>
        if bonusSymbolCollected l then (Inr (), l, w)
        else
          let l1 = l\<lparr>bonusSymbolPlaced := True\<rparr> in
          (case updateTabState (TabNum 1) [(''bonusSymbolAvailable'', JBool True)] me w of
             (Inl e, w1) \<Rightarrow> (Inl e, l1, w1)
           | (Inr d, w1) \<Rightarrow> (Inr (), l1, w1)))"

text \<open>The \<open>onMove\<close> callback that \<open>placeBonusSymbol\<close> installs.\<close>

definition bonus_onMove ::
  "nat \<Rightarrow> nat \<Rightarrow> int \<Rightarrow> nat \<Rightarrow> level1 \<times> world \<Rightarrow> (error + unit) \<times> level1 \<times> world" where
  "bonus_onMove col row nonce me lw =
     (case lw of (l, w) \<Rightarrow>
        if col = 3 \<and> row = 3 \<and> \<not> bonusSymbolCollected l then
          let l1 = l\<lparr>bonusSymbolCollected := True\<rparr> in
          (case updateTabState (TabNum 1) [(''bonusSymbol'', JBool True)] me w of
             (Inl e, w1) \<Rightarrow> (Inl e, l1, w1)
           | (Inr d, w1) \<Rightarrow>
               (case send ''NEW_SYMBOL_FOUND'' (JObj [(''fromTab'', JNum 1)]) (JNum 1) nonce me w1 of
                  (r, w2) \<Rightarrow> (r, l1, w2)))
        else (Inr (), l, w))"

text \<open>
  The updater of \<open>setupReturnVisit\<close>'s \<open>onInteract\<close>: a floor symbol joins
  \<open>player.codeFragments\<close>. The array is changed in place, so the document that is
  returned holds the new array where the old one was.
\<close>

definition add_codeFragment :: "string \<Rightarrow> json \<Rightarrow> error + json" where
  "add_codeFragment symbol s =
     (case get_field (Some s) ''player'' of
        Inl e \<Rightarrow> Inl e
      | Inr player \<Rightarrow>
          (case get_field player ''codeFragments'' of
             Inl e \<Rightarrow> Inl e
           | Inr frags \<Rightarrow>
               (case push_unique frags symbol of
                  Inl e \<Rightarrow> Inl e
                | Inr frags' \<Rightarrow>
                    (case put player ''codeFragments'' frags' of
                       Inl e \<Rightarrow> Inl e
                     | Inr player' \<Rightarrow> put (Some s) ''player'' player'))))"

definition floor_onInteract ::
  "string \<Rightarrow> string \<Rightarrow> int \<Rightarrow> nat \<Rightarrow> world \<Rightarrow> (error + unit) \<times> world" where
  "floor_onInteract item_type symbol nonce me w =
     (if item_type = ''floor_symbol'' then
        (case setState (add_codeFragment symbol) (JNum 1) me w of
           (Inl e, w1) \<Rightarrow> (Inl e, w1)
         | (Inr s, w1) \<Rightarrow>
             (case player_field ''codeFragments'' me w1 of
                (Inl e, w2) \<Rightarrow> (Inl e, w2)
              | (Inr frags, w2) \<Rightarrow>
                  (case length_ge frags 5 of
                     Inl e \<Rightarrow> (Inl e, w2)
                   | Inr all_found \<Rightarrow>
                       if all_found
                       then send ''BACKTRACK_TRIGGER'' (JObj [(''targetTab'', JNum 3)]) (JNum 1)
                              nonce me w2
                       else (Inr (), w2))))
      else (Inr (), w))"

text \<open>
  \<open>setupReturnVisit\<close> reads the collected symbols and keeps the floor symbols that are
  not among them: \<open>FLOOR_SYMBOLS.filter(s => !collected.includes(s.symbol))\<close> calls
  \<open>collected.includes\<close> for each of the five symbols, which throws unless
  \<open>collected\<close> is an array or a string. What the filter keeps goes to the renderer
  only. Then \<open>floor_onInteract\<close> is installed.
\<close>

fun has_includes :: "json \<Rightarrow> error + unit" where
  "has_includes (JArr xs) = Inr ()"
| "has_includes (JStr s) = Inr ()"
| "has_includes v = Inl TypeError"

definition setupReturnVisit :: "nat \<Rightarrow> world \<Rightarrow> (error + unit) \<times> world" where
  "setupReturnVisit me w =
     (case read_collection ''codeFragments'' me w of
        (Inl e, w1) \<Rightarrow> (Inl e, w1)
      | (Inr collected, w1) \<Rightarrow>
          (case has_includes collected of
             Inl e \<Rightarrow> (Inl e, w1)
           | Inr symbolInteractables \<Rightarrow> (Inr (), w1)))"

text \<open>\<open>msg.type === type && msg.payload?.[k] === v\<close>\<close>

definition msg_is :: "json \<Rightarrow> string \<Rightarrow> string \<Rightarrow> json \<Rightarrow> error + bool" where
  "msg_is msg type k v =
     (case get_field (Some msg) ''type'' of
        Inl e \<Rightarrow> Inl e
      | Inr t \<Rightarrow>
          if t \<noteq> Some (JStr type) then Inr False
          else (case get_field (Some msg) ''payload'' of
                  Inl e \<Rightarrow> Inl e
                | Inr payload \<Rightarrow>
                    (case opt_field payload k of
                       Inl e \<Rightarrow> Inl e
                     | Inr x \<Rightarrow> Inr (x = Some v))))"

text \<open>
  The callback \<open>init\<close> registers with \<open>channel.onMessage\<close>. The first-visit timers
  and overlays the handler clears are not part of the model.
\<close>

definition level1_onMessage ::
  "json \<Rightarrow> nat \<Rightarrow> level1 \<times> world \<Rightarrow> (error + unit) \<times> level1 \<times> world" where
  "level1_onMessage msg me lw =
     (case lw of (l, w) \<Rightarrow>
        (case msg_is msg ''BACKTRACK_TRIGGER'' ''targetTab'' (JNum 1) of
           Inl e \<Rightarrow> (Inl e, l, w)
         | Inr backtrack \<Rightarrow>
             if backtrack then
               (case msg_is msg ''BACKTRACK_TRIGGER'' ''reason'' (JStr ''midpuzzle'') of
                  Inl e \<Rightarrow> (Inl e, l, w)
                | Inr midpuzzle \<Rightarrow>
                    if midpuzzle then placeBonusSymbol me (l, w)
                    else
                      (case updateTabState (TabNum 1)
                              [(''state'', JStr ''illuminated''), (''floorRevealed'', JBool True)]
                              me w of
                         (Inl e, w1) \<Rightarrow> (Inl e, l, w1)
                       | (Inr d, w1) \<Rightarrow>
                           (case setupReturnVisit me w1 of
                              (Inl e, w2) \<Rightarrow> (Inl e, l, w2)
                            | (Inr u, w2) \<Rightarrow> (Inr (), l, w2))))
             else
               (case msg_is msg ''TAB_COMPLETED'' ''completedTab'' (JNum 3) of
                  Inl e \<Rightarrow> (Inl e, l, w)
                | Inr completed \<Rightarrow>
                    if completed then tryEnter3D me (l, w) else (Inr (), l, w))))"


definition level1_start :: "bool \<Rightarrow> level1" where
  "level1_start three =
     \<lparr>THREE = three, isReturn = False, is3DMode = False, entered3D = False,
      bonusSymbolPlaced = False, bonusSymbolCollected = False\<rparr>"





text \<open>
  The 3D scene collecting a mind fragment: the updater, then the count, then the
  announcement once three are held.
\<close>

definition add_mindFragment :: "string \<Rightarrow> json \<Rightarrow> error + json" where
  "add_mindFragment fid s =
     (case get_field (Some s) ''player'' of
        Inl e \<Rightarrow> Inl e
      | Inr player \<Rightarrow>
      (case get_field player ''mindFragments'' of
         Inl e \<Rightarrow> Inl e
       | Inr held \<Rightarrow>
      (case (if falsy held then put player ''mindFragments'' (JArr []) else defined player) of
         Inl e \<Rightarrow> Inl e
       | Inr player1 \<Rightarrow>
      (case get_field (Some player1) ''mindFragments'' of
         Inl e \<Rightarrow> Inl e
       | Inr frags \<Rightarrow>
      (case push_unique frags fid of
         Inl e \<Rightarrow> Inl e
       | Inr frags' \<Rightarrow>
      (case put (Some player1) ''mindFragments'' frags' of
         Inl e \<Rightarrow> Inl e
       | Inr player2 \<Rightarrow> put (Some s) ''player'' player2))))))"

definition mind_collect :: "string \<Rightarrow> int \<Rightarrow> nat \<Rightarrow> world \<Rightarrow> (error + unit) \<times> world" where
  "mind_collect fid nonce me w =
     (case setState (add_mindFragment fid) (JNum 1) me w of
        (Inl e, w1) \<Rightarrow> (Inl e, w1)
      | (Inr s, w1) \<Rightarrow>
          (case read_collection ''mindFragments'' me w1 of
             (Inl e, w2) \<Rightarrow> (Inl e, w2)
           | (Inr frags, w2) \<Rightarrow>
               (case length_ge (Some frags) 3 of
                  Inl e \<Rightarrow> (Inl e, w2)
                | Inr complete \<Rightarrow>
                    if complete then
                      (case updateTabState (TabNum 1) [(''mindComplete'', JBool True)] me w2 of
                         (Inl e, w3) \<Rightarrow> (Inl e, w3)
                       | (Inr d, w3) \<Rightarrow>
                           send ''MIND_FRAGMENTS_COLLECTED'' (JObj [(''fromTab'', JNum 1)]) (JNum 1)
                             nonce me w3)
                    else (Inr (), w2))))"

section \<open>levels/level3.js\<close>






section \<open>levels/level4.js\<close>




section \<open>Vocabulary of the properties\<close>

text \<open>A stored value \<open>getState\<close> cannot read: nothing stored, or a text that does not parse.\<close>

definition unreadable :: "stored option \<Rightarrow> bool" where
  "unreadable raw = (case raw of None \<Rightarrow> True | Some t \<Rightarrow> JSON_parse t = None)"

text \<open>
  A structurally valid document: an object whose \<open>tabs\<close>, \<open>player\<close>, \<open>narrative\<close> and
  \<open>meta\<close> are objects, as in the default schema.
\<close>

fun is_object :: "json option \<Rightarrow> bool" where
  "is_object (Some (JObj ps)) = True"
| "is_object v = False"

definition is_document :: "json \<Rightarrow> bool" where
  "is_document d =
     (is_object (Some d) \<and> is_object (opt_prop (Some d) ''tabs'')
      \<and> is_object (opt_prop (Some d) ''player'')
      \<and> is_object (opt_prop (Some d) ''narrative'')
      \<and> is_object (opt_prop (Some d) ''meta''))"

text \<open>A sequence of \<open>setState\<close> calls made by one context, each with its \<open>fromTab\<close>.\<close>

fun run_sets :: "((json \<Rightarrow> json) \<times> json) list \<Rightarrow> nat \<Rightarrow> world \<Rightarrow> world" where
  "run_sets [] me w = w"
| "run_sets ((f, fromTab) # cs) me w =
     run_sets cs me (snd (setState (\<lambda>d. Inr (f d)) fromTab me w))"


text \<open>A tab is opened: a new context joins the live ones.\<close>

definition open_context :: "nat \<Rightarrow> world \<Rightarrow> world" where
  "open_context c w = w\<lparr>live := live w @ [c]\<rparr>"

text \<open>
  A host with two live contexts, 0 and 1, where context 1 has registered callback 7;
  \<open>bc\<close> says whether BroadcastChannel exists, \<open>full\<close> whether the storage quota is
  exhausted, \<open>raw\<close> is the text stored for the document.
\<close>

definition host :: "bool \<Rightarrow> bool \<Rightarrow> stored option \<Rightarrow> world" where
  "host bc full raw =
     \<lparr>items = (\<lambda>k. None)(STORAGE_KEY := raw), quota_exceeded = full,
      hasBroadcastChannel = bc, live = [0, 1], listenerMap = (\<lambda>c. if c = 1 then [7] else []),
      delivered = []\<rparr>"

text \<open>
  The document \<open>merge_tab\<close> returns for a document with properties \<open>ps\<close> whose
  \<open>tabs\<close> is an object with properties \<open>ts\<close>.
\<close>

definition merged :: "string \<Rightarrow> obj \<Rightarrow> obj \<Rightarrow> obj \<Rightarrow> json" where
  "merged tid us ps ts =
     JObj (AList.update ''tabs''
            (JObj (set_own tid (JObj (spread [own_props (map_of ts tid), us])) ts)) ps)"

text \<open>
  The property names of a JavaScript object come in the order in which the language
  keeps them: no name twice, array indices first and ascending, then the other names.
\<close>

definition before :: "string \<Rightarrow> string \<Rightarrow> bool" where
  "before a b =
     (case index_of a of
        None \<Rightarrow> index_of b = None
      | Some i \<Rightarrow> (case index_of b of None \<Rightarrow> True | Some j \<Rightarrow> i < j))"

definition js_order :: "string list \<Rightarrow> bool" where
  "js_order ks = (distinct ks \<and> sorted_wrt before ks)"

text \<open>
  Tab 1 runs as context 1 of \<open>host\<close>, on the default document, and the mid-puzzle
  trigger is delivered once and then once more.
\<close>

definition bonus_once :: "level1 \<times> world" where
  "bonus_once =
     snd (placeBonusSymbol 1 (level1_start True, host True False (Some (Serialized defaultState))))"

definition bonus_twice :: "level1 \<times> world" where
  "bonus_twice = snd (placeBonusSymbol 1 bonus_once)"

text \<open>A field of a tab record in the persisted document.\<close>

definition stored_field :: "world \<Rightarrow> string \<Rightarrow> string \<Rightarrow> json option" where
  "stored_field w tid field =
     (case persisted w of None \<Rightarrow> None | Some d \<Rightarrow> tab_field d tid field)"


















text \<open>
  A name that is no array index, not \<open>length\<close>, and defined by no prototype: reading
  it finds the own properties of objects and nothing else.
\<close>

definition plain :: "string \<Rightarrow> bool" where
  "plain k =
     (index_of k = None \<and> k \<noteq> ''length''
      \<and> k \<notin> set (Object_prototype @ Array_prototype @ String_prototype @ Number_prototype))"

section \<open>The store: basic facts\<close>

lemma lsFallbackListen_other_key: "lsFallbackListen STORAGE_KEY v = None"
  by (simp add: lsFallbackListen_def STORAGE_KEY_def LS_KEY_def)

lemma setItem_quota: "quota_exceeded w \<Longrightarrow> setItem me k v w = (Inl QuotaExceededError, w)"
  by (simp add: setItem_def)

lemma setItem_state:
  "\<not> quota_exceeded w \<Longrightarrow>
   setItem me STORAGE_KEY v w = (Inr (), w\<lparr>items := (items w)(STORAGE_KEY \<mapsto> v)\<rparr>)"
  by (simp add: setItem_def Let_def lsFallbackListen_other_key)

lemma getState_parsed:
  "items w STORAGE_KEY = Some (Serialized d) \<Longrightarrow> getState me w = (Inr d, w)"
  by (simp add: getState_def)

lemma getState_init:
  assumes "unreadable (items w STORAGE_KEY)" and "\<not> quota_exceeded w"
  shows "getState me w =
    (Inr defaultState, w\<lparr>items := (items w)(STORAGE_KEY \<mapsto> Serialized defaultState)\<rparr>)"
  using assms
  by (auto simp add: getState_def unreadable_def setItem_state JSON_stringify_def Let_def split: option.splits)

lemma getState_init_quota:
  assumes "unreadable (items w STORAGE_KEY)" and "quota_exceeded w"
  shows "getState me w = (Inl QuotaExceededError, w)"
  using assms
  by (auto simp add: getState_def unreadable_def setItem_quota JSON_stringify_def Let_def split: option.splits)

lemma unreadable_cases:
  "unreadable raw \<or> (\<exists>d. raw = Some (Serialized d))"
proof (cases raw)
  case None then show ?thesis by (simp add: unreadable_def)
next
  case (Some t) then show ?thesis by (cases t) (simp_all add: unreadable_def)
qed

lemma getState_quota_const [simp]: "quota_exceeded (snd (getState me w)) = quota_exceeded w"
  by (auto simp: getState_def setItem_def Let_def split: option.splits prod.splits sum.splits if_splits)

lemma getState_effect:
  "snd (getState me w) = w
   \<or> snd (getState me w) = w\<lparr>items := (items w)(STORAGE_KEY \<mapsto> Serialized defaultState)\<rparr>"
  using unreadable_cases [of "items w STORAGE_KEY"]
  by (cases "quota_exceeded w")
     (auto simp: getState_init getState_init_quota getState_parsed)

lemma getState_frame [simp]:
  "live (snd (getState me w)) = live w"
  "listenerMap (snd (getState me w)) = listenerMap w"
  "hasBroadcastChannel (snd (getState me w)) = hasBroadcastChannel w"
  "delivered (snd (getState me w)) = delivered w"
  using getState_effect [of me w] by auto


lemma broadcast_items [simp]: "items (broadcast f p w) = items w"
  by (simp add: broadcast_def postMessage_def)

lemma broadcast_quota [simp]: "quota_exceeded (broadcast f p w) = quota_exceeded w"
  by (simp add: broadcast_def postMessage_def)

lemma setState_ok:
  assumes "\<not> quota_exceeded w" and "fst (getState me w) = Inr d" and "updater d = Inr next"
  shows "setState updater fromTab me w =
    (Inr next, broadcast fromTab next
       ((snd (getState me w))\<lparr>items := (items (snd (getState me w)))(STORAGE_KEY \<mapsto> Serialized next)\<rparr>))"
proof -
  obtain w1 where g: "getState me w = (Inr d, w1)"
    using assms(2) by (cases "getState me w") auto
  have "\<not> quota_exceeded w1"
    using getState_quota_const [of me w] assms(1) g by simp
  then show ?thesis
    using g assms(3) by (simp add: setState_def setItem_state JSON_stringify_def)
qed



lemma fanout_frame [simp]:
  "fanout src m (w\<lparr>items := x\<rparr>) = fanout src m w"
  "fanout src m (w\<lparr>delivered := y\<rparr>) = fanout src m w"
  "fanout src m (snd (getState me w)) = fanout src m w"
  by (simp_all add: fanout_def)

lemma host_sel [simp]:
  "items (host bc full raw) STORAGE_KEY = raw"
  "quota_exceeded (host bc full raw) = full"
  "hasBroadcastChannel (host bc full raw) = bc"
  "delivered (host bc full raw) = []"
  by (simp_all add: host_def)

lemma host_frame [simp]:
  "live (host bc full raw) = [0, 1]"
  "listenerMap (host bc full raw) (Suc 0) = [7]"
  "listenerMap (host bc full raw) 0 = []"
  "items (host bc full raw) LS_KEY = None"
  by (simp_all add: host_def LS_KEY_def STORAGE_KEY_def)

section \<open>Property access: basic facts\<close>

lemma plain_names [simp]:
  "plain ''tabs''" "plain ''player''" "plain ''meta''" "plain ''narrative''" "plain ''state''"
  "plain ''gameComplete''" "plain ''hasFlashlight''" "plain ''codeFragments''"
  "plain ''mindFragments''" "plain ''fragmentsCollected''" "plain ''visitCount''"
  "plain ''bonusSymbolAvailable''" "plain ''bonusSymbol''" "plain ''type''"
  "plain ''payload''" "plain ''targetTab''" "plain ''reason''" "plain ''completedTab''"
  "plain ''fromTab''" "plain ''_nonce''"
  by (simp_all add: plain_def index_of_def decimal_def digit_value_def Object_prototype_def
      Array_prototype_def String_prototype_def Number_prototype_def)

lemma tab_names [simp]:
  "index_of ''1'' = Some 1" "index_of ''3'' = Some 3" "index_of ''4'' = Some 4"
  "''1'' \<notin> set Object_prototype" "''3'' \<notin> set Object_prototype"
  "''4'' \<notin> set Object_prototype"
  by (simp_all add: index_of_def decimal_def digit_value_def digit_def Object_prototype_def)

lemma get_field_nullish [simp]:
  "get_field None k = Inl TypeError" "get_field (Some JNull) k = Inl TypeError"
  by (simp_all add: get_field_def get_prop_def)


lemma get_field_own:
  "map_of ps k = Some x \<Longrightarrow> get_field (Some (JObj ps)) k = Inr (Some x)"
  by (simp add: get_field_def get_prop_def)

lemma plain_index: "plain k \<Longrightarrow> index_of k = None"
  by (simp add: plain_def)


lemma own_plain: "plain k \<Longrightarrow> own j k = opt_prop (Some j) k"
  by (cases j) (simp_all add: plain_def)




lemma get_field_Inr:
  "get_field v k = Inr r \<Longrightarrow> \<exists>j. v = Some j \<and> j \<noteq> JNull \<and> r = own j k"
  by (cases v; cases "the v"; cases "own (the v) k")
     (auto simp: get_field_def get_prop_def split: if_splits)

lemma index_of_inj: "index_of a = Some i \<Longrightarrow> index_of b = Some i \<Longrightarrow> a = b"
  by (auto simp: index_of_def split: option.splits if_splits)

lemma ins_set: "set (ins i k x ps) = insert (k, x) (set ps)"
  by (induction ps) (auto split: option.splits)

lemma ins_map_of:
  "k \<notin> fst ` set ps \<Longrightarrow> map_of (ins i k x ps) k' = (if k' = k then Some x else map_of ps k')"
  by (induction ps) (auto split: option.splits)

lemma ins_append:
  "(\<forall>p \<in> set ps. \<exists>j. index_of (fst p) = Some j \<and> j < i) \<Longrightarrow> ins i k x ps = ps @ [(k, x)]"
  by (induction ps) auto

lemma map_of_None_keys: "map_of ps k = None \<longleftrightarrow> k \<notin> fst ` set ps"
  by (simp add: map_of_eq_None_iff)

lemma set_own_conv:
  "map_of (set_own k x ps) k' = (if k' = k then Some x else map_of ps k')"
proof (cases "map_of ps k = None")
  case False
  then show ?thesis by (simp add: set_own_def update_conv')
next
  case True
  then have fresh: "k \<notin> fst ` set ps" by (simp add: map_of_None_keys)
  show ?thesis
  proof (cases "index_of k")
    case None
    have "map_of (ps @ [(k, x)]) k' = (if k' = k then Some x else map_of ps k')"
      using True by (induction ps) (auto split: if_splits)
    then show ?thesis using True None by (simp add: set_own_def)
  next
    case (Some i)
    then show ?thesis using True ins_map_of [OF fresh] by (simp add: set_own_def)
  qed
qed

lemma set_own_present: "map_of ps k \<noteq> None \<Longrightarrow> set_own k x ps = AList.update k x ps"
  by (simp add: set_own_def)

lemma set_own_name: "index_of k = None \<Longrightarrow> set_own k x ps = AList.update k x ps"
proof (cases "map_of ps k = None")
  case True
  assume "index_of k = None"
  moreover have "AList.update k x ps = ps @ [(k, x)]"
    using True by (induction ps) (auto split: if_splits)
  ultimately show ?thesis using True by (simp add: set_own_def)
next
  case False
  then show ?thesis by (simp add: set_own_def)
qed

lemma set_own_triv: "map_of ps k = Some x \<Longrightarrow> set_own k x ps = ps"
  by (simp add: set_own_def update_triv)

lemma set_own_again: "set_own k x (set_own k y ps) = set_own k x ps"
proof (cases "map_of ps k = None")
  case False
  then show ?thesis by (simp add: set_own_def update_conv')
next
  case True
  then have fresh: "k \<notin> fst ` set ps" by (simp add: map_of_None_keys)
  have held: "map_of (set_own k y ps) k \<noteq> None" by (simp add: set_own_conv)
  have app: "AList.update k x (qs @ [(k, y)]) = qs @ [(k, x)]" if "k \<notin> fst ` set qs" for qs
    using that by (induction qs) auto
  have insu: "AList.update k x (ins i k y qs) = ins i k x qs" if "k \<notin> fst ` set qs" for i qs
    using that by (induction qs) (auto split: option.splits)
  show ?thesis
    using True held fresh by (auto simp: set_own_def app insu split: option.splits)
qed

lemma before_index:
  "index_of k = Some i \<Longrightarrow> before a k \<longleftrightarrow> (\<exists>j. index_of a = Some j \<and> j < i)"
  by (auto simp: before_def split: option.splits)

lemma ins_order:
  assumes "index_of k = Some i" and "k \<notin> fst ` set ps" and "sorted_wrt before (map fst ps)"
  shows "sorted_wrt before (map fst (ins i k x ps))"
  using assms(2,3)
proof (induction ps)
  case Nil
  then show ?case by simp
next
  case (Cons p ps)
  have tail: "\<forall>q \<in> set ps. before (fst p) (fst q)" and rest: "sorted_wrt before (map fst ps)"
    using Cons.prems(2) by auto
  show ?case
  proof (cases "index_of (fst p)")
    case None
    then have "\<forall>q \<in> set ps. index_of (fst q) = None"
      using tail by (auto simp: before_def)
    then have "\<forall>q \<in> set (p # ps). before k (fst q)"
      using None assms(1) by (auto simp: before_def)
    then show ?thesis using None Cons.prems(2) by auto
  next
    case (Some j)
    show ?thesis
    proof (cases "j < i")
      case True
      have "before (fst p) k" using Some True assms(1) by (simp add: before_def)
      moreover have "sorted_wrt before (map fst (ins i k x ps))"
        using Cons.IH Cons.prems(1) rest by auto
      ultimately show ?thesis using Some True tail by (auto simp: ins_set)
    next
      case False
      have "fst p \<noteq> k" using Cons.prems(1) by auto
      then have "j \<noteq> i" using index_of_inj [OF Some, of k] assms(1) by auto
      then have lt: "i < j" using False by simp
      have "before k (fst q)" if "q \<in> set ps" for q
        using tail that Some lt assms(1) by (auto simp: before_def split: option.splits)
      moreover have "before k (fst p)" using Some lt assms(1) by (simp add: before_def)
      ultimately show ?thesis using Some False Cons.prems(2) by auto
    qed
  qed
qed

lemma set_own_order:
  assumes "js_order (map fst ps)"
  shows "js_order (map fst (set_own k x ps))"
proof (cases "map_of ps k = None")
  case False
  then have "map fst (set_own k x ps) = map fst ps"
    by (auto simp: set_own_def update_keys map_of_None_keys)
  then show ?thesis using assms by simp
next
  case True
  then have fresh: "k \<notin> fst ` set ps" by (simp add: map_of_None_keys)
  have d: "distinct (map fst ps)" and s: "sorted_wrt before (map fst ps)"
    using assms by (simp_all add: js_order_def)
  show ?thesis
  proof (cases "index_of k")
    case None
    have "\<forall>a \<in> set (map fst ps). before a k"
      using None by (auto simp: before_def split: option.splits)
    then have "sorted_wrt before (map fst ps @ [k])"
      using s by (simp add: sorted_wrt_append)
    then show ?thesis using True None d fresh by (simp add: set_own_def js_order_def)
  next
    case (Some i)
    have "distinct (map fst (ins i k x ps))"
      using d fresh by (induction ps) (auto simp: ins_set split: option.splits)
    then show ?thesis
      using True Some ins_order [OF Some fresh s, of x] by (simp add: set_own_def js_order_def)
  qed
qed

lemma assign_Cons: "assign r ((k, v) # us) = assign (set_own k v r) us"
  by (simp add: assign_def)

lemma assign_Nil [simp]: "assign r [] = r"
  by (simp add: assign_def)

lemma assign_other_key: "k \<notin> fst ` set us \<Longrightarrow> map_of (assign r us) k = map_of r k"
proof (induction us arbitrary: r)
  case Nil
  then show ?case by simp
next
  case (Cons u us)
  obtain k' v' where u: "u = (k', v')" by (cases u)
  have "k \<noteq> k'" and "k \<notin> fst ` set us" using Cons.prems u by auto
  then show ?case using Cons.IH [of "set_own k' v' r"] u
    by (simp add: assign_Cons set_own_conv)
qed

lemma assign_own_key:
  "distinct (map fst us) \<Longrightarrow> (k, v) \<in> set us \<Longrightarrow> map_of (assign r us) k = Some v"
proof (induction us arbitrary: r)
  case Nil
  then show ?case by simp
next
  case (Cons u us)
  obtain k' v' where u: "u = (k', v')" by (cases u)
  show ?case
  proof (cases "(k, v) = (k', v')")
    case True
    have "k \<notin> fst ` set us" using Cons.prems(1) u True by auto
    then show ?thesis using u True
      by (simp add: assign_Cons assign_other_key set_own_conv)
  next
    case False
    then have "(k, v) \<in> set us" using Cons.prems(2) u by auto
    moreover have "distinct (map fst us)" using Cons.prems(1) by simp
    ultimately show ?thesis using Cons.IH u by (simp add: assign_Cons)
  qed
qed

lemma assign_triv: "(\<forall>(k, v) \<in> set us. map_of r k = Some v) \<Longrightarrow> assign r us = r"
proof (induction us)
  case Nil
  then show ?case by simp
next
  case (Cons u us)
  obtain k v where u: "u = (k, v)" by (cases u)
  have "set_own k v r = r" using Cons.prems u by (simp add: set_own_triv)
  then show ?case using Cons u by (simp add: assign_Cons)
qed

lemma assign_order: "js_order (map fst r) \<Longrightarrow> js_order (map fst (assign r us))"
proof (induction us arbitrary: r)
  case Nil
  then show ?case by simp
next
  case (Cons u us)
  obtain k v where u: "u = (k, v)" by (cases u)
  show ?case using Cons u by (simp add: assign_Cons set_own_order)
qed

lemma set_own_last:
  assumes "js_order (map fst (acc @ [(k, v)]))"
  shows "set_own k v acc = acc @ [(k, v)]"
proof -
  have fresh: "k \<notin> fst ` set acc" and s: "\<forall>p \<in> set acc. before (fst p) k"
    using assms by (auto simp: js_order_def sorted_wrt_append)
  then have none: "map_of acc k = None" by (simp add: map_of_None_keys)
  show ?thesis
  proof (cases "index_of k")
    case None
    then show ?thesis using none by (simp add: set_own_def)
  next
    case (Some i)
    have "\<forall>p \<in> set acc. \<exists>j. index_of (fst p) = Some j \<and> j < i"
      using s before_index [OF Some] by blast
    then show ?thesis using none Some by (simp add: set_own_def ins_append)
  qed
qed

lemma assign_fresh:
  "js_order (map fst (acc @ us)) \<Longrightarrow> assign acc us = acc @ us"
proof (induction us arbitrary: acc)
  case Nil
  then show ?case by simp
next
  case (Cons u us)
  obtain k v where u: "u = (k, v)" by (cases u)
  have "js_order (map fst (acc @ [(k, v)]))"
    using Cons.prems u by (auto simp: js_order_def sorted_wrt_append)
  then have "assign acc (u # us) = assign (acc @ [(k, v)]) us"
    using u by (simp add: assign_Cons set_own_last)
  also have "\<dots> = (acc @ [(k, v)]) @ us"
    using Cons.prems u by (intro Cons.IH) simp
  finally show ?case using u by simp
qed

lemma js_order_Nil [simp]: "js_order []"
  by (simp add: js_order_def)

lemma spread_two: "spread [a, us] = assign (assign [] a) us"
  by (simp add: spread_def)


lemma spread_field:
  "distinct (map fst us) \<Longrightarrow> (k, v) \<in> set us \<Longrightarrow> map_of (spread [a, us]) k = Some v"
  by (simp add: spread_two assign_own_key)

lemma spread_again:
  assumes "distinct (map fst us)"
  shows "spread [spread [a, us], us] = spread [a, us]"
proof -
  let ?r = "assign (assign [] a) us"
  have o: "js_order (map fst ?r)" by (intro assign_order) simp
  have "assign [] ?r = ?r" using assign_fresh [of "[]" ?r] o by simp
  moreover have "assign ?r us = ?r"
    by (rule assign_triv) (auto simp: assign_own_key [OF assms])
  ultimately show ?thesis by (simp add: spread_two)
qed

section \<open>Merging into a tab record\<close>

lemma get_prop_object:
  "\<exists>old. get_prop (Some (JObj ts)) tid = Inr old \<and> props old = own_props (map_of ts tid)"
  by (cases "map_of ts tid") (simp_all add: get_prop_def)

lemma merge_tab_ok:
  assumes "map_of ps ''tabs'' = Some (JObj ts)"
      and "tid \<noteq> ''__proto__'' \<or> map_of ts tid \<noteq> None"
  shows "merge_tab tid us (JObj ps) = Inr (merged tid us ps ts)"
proof -
  obtain old where o: "get_prop (Some (JObj ts)) tid = Inr old"
    and p: "props old = own_props (map_of ts tid)"
    using get_prop_object by blast
  have t: "get_field (Some (JObj ps)) ''tabs'' = Inr (Some (JObj ts))"
    using assms(1) by (rule get_field_own)
  have w: "put (Some (JObj ts)) tid x = Inr (JObj (set_own tid x ts))" for x
    using assms(2) by auto
  have b: "put (Some (JObj ps)) ''tabs'' x = Inr (JObj (AList.update ''tabs'' x ps))" for x
    using assms(1) by (simp add: set_own_present)
  show ?thesis
    by (simp add: merge_tab_def t o p w b merged_def del: put.simps)
qed

lemma get_prop_own:
  "own j k = Some x \<Longrightarrow> j \<noteq> JNull \<Longrightarrow> get_prop (Some j) k = Inr (Json x)"
  by (cases j) (simp_all add: get_prop_def)

lemma own_tabs: "own d ''tabs'' = Some t \<Longrightarrow> \<exists>ps. d = JObj ps \<and> map_of ps ''tabs'' = Some t"
  using own_plain [of "''tabs''" d] by (cases d) simp_all

lemma merge_tab_idem:
  assumes us: "distinct (map fst us)" and m: "merge_tab tid us d = Inr d'"
  shows "merge_tab tid us d' = Inr d'"
proof -
  obtain tabs where gt: "get_field (Some d) ''tabs'' = Inr tabs"
    using m by (auto simp: merge_tab_def split: sum.splits)
  obtain old where go: "get_prop tabs tid = Inr old"
    using m gt by (auto simp: merge_tab_def split: sum.splits)
  let ?rec = "spread [props old, us]"
  obtain tabs' where pt: "put tabs tid (JObj ?rec) = Inr tabs'"
    using m gt go by (auto simp: merge_tab_def split: sum.splits)
  have pd: "put (Some d) ''tabs'' tabs' = Inr d'"
    using m gt go pt by (simp add: merge_tab_def)
  obtain t where tabs: "tabs = Some t" and tn: "t \<noteq> JNull"
    using go by (cases tabs; cases "the tabs") (auto simp: get_prop_def)
  have "own d ''tabs'' = Some t"
    using get_field_Inr [OF gt] tabs by auto
  then obtain ps where d: "d = JObj ps" and pst: "map_of ps ''tabs'' = Some t"
    using own_tabs by blast
  have d': "d' = JObj (AList.update ''tabs'' tabs' ps)"
    using pd d pst by (simp add: set_own_present)
  have gt': "get_field (Some d') ''tabs'' = Inr (Some tabs')"
    unfolding d' by (rule get_field_own) (simp add: update_conv')
  have wb: "put (Some d') ''tabs'' tabs' = Inr d'"
    unfolding d' by (simp add: set_own_present update_conv')
  have again: "spread [?rec, us] = ?rec" by (rule spread_again [OF us])
  have step: "\<exists>old'. get_prop (Some tabs') tid = Inr old'
                 \<and> put (Some tabs') tid (JObj (spread [props old', us])) = Inr tabs'"
    if "own tabs' tid = Some (JObj ?rec)" and "tabs' \<noteq> JNull"
      and "put (Some tabs') tid (JObj ?rec) = Inr tabs'"
  proof -
    have "get_prop (Some tabs') tid = Inr (Json (JObj ?rec))"
      using that(1,2) by (rule get_prop_own)
    then show ?thesis using that(3) again by simp
  qed
  have same: "\<exists>old'. get_prop (Some tabs') tid = Inr old'
                 \<and> put (Some tabs') tid (JObj (spread [props old', us])) = Inr tabs'"
    if "tabs' = t"
    using that go pt tabs by blast
  have fin: "\<exists>old'. get_prop (Some tabs') tid = Inr old'
                 \<and> put (Some tabs') tid (JObj (spread [props old', us])) = Inr tabs'"
  proof (cases t)
    case JNull
    then show ?thesis using tn by simp
  next
    case (JObj ts)
    then have tabs': "tabs' = JObj (set_own tid (JObj ?rec) ts)"
      using pt tabs by (auto split: if_splits)
    have "own tabs' tid = Some (JObj ?rec)" by (simp add: tabs' set_own_conv)
    moreover have "put (Some tabs') tid (JObj ?rec) = Inr tabs'"
      by (simp add: tabs' set_own_conv set_own_again)
    ultimately show ?thesis using step tabs' by blast
  next
    case (JArr xs)
    obtain i where i: "index_of tid = Some i" and le: "i \<le> length xs"
      and tabs': "tabs' = JArr (if i < length xs then xs[i := JObj ?rec] else xs @ [JObj ?rec])"
      using pt tabs JArr by (auto split: option.splits if_splits)
    have nl: "tid \<noteq> ''length''"
      using i by (auto simp: index_of_def decimal_def digit_value_def)
    have "own tabs' tid = Some (JObj ?rec)"
      using i le nl by (auto simp: tabs' nth_append)
    moreover have "put (Some tabs') tid (JObj ?rec) = Inr tabs'"
      using i le by (auto simp: tabs' nth_append list_update_append)
    ultimately show ?thesis using step tabs' by blast
  next
    case (JBool b)
    then have "tabs' = t" using pt tabs by (auto split: if_splits)
    then show ?thesis by (rule same)
  next
    case (JNum n)
    then have "tabs' = t" using pt tabs by (auto split: if_splits)
    then show ?thesis by (rule same)
  next
    case (JStr s)
    then have "tabs' = t" using pt tabs by (auto split: if_splits)
    then show ?thesis by (rule same)
  qed
  then obtain old' where "get_prop (Some tabs') tid = Inr old'"
    and "put (Some tabs') tid (JObj (spread [props old', us])) = Inr tabs'"
    by blast
  then show ?thesis
    by (simp add: merge_tab_def gt' wb)
qed

section \<open>Reading and writing twice\<close>

lemma getState_Inl: "fst (getState me w) = Inl e \<Longrightarrow> snd (getState me w) = w"
  using unreadable_cases [of "items w STORAGE_KEY"]
  by (cases "quota_exceeded w") (auto simp: getState_init getState_init_quota getState_parsed)

lemma getState_again:
  assumes "fst (getState me w) = Inr d"
  shows "getState me (snd (getState me w)) = (Inr d, snd (getState me w))"
proof (cases "unreadable (items w STORAGE_KEY)")
  case True
  then have "\<not> quota_exceeded w" using assms by (auto simp: getState_init_quota)
  then show ?thesis using True assms by (simp add: getState_init getState_parsed)
next
  case False
  then obtain d0 where "items w STORAGE_KEY = Some (Serialized d0)"
    using unreadable_cases [of "items w STORAGE_KEY"] by auto
  then show ?thesis using assms by (simp add: getState_parsed)
qed

lemma setState_quota_const [simp]:
  "quota_exceeded (snd (setState f t me w)) = quota_exceeded w"
proof -
  have "quota_exceeded (snd (getState me w)) = quota_exceeded w" by simp
  then show ?thesis
    by (cases "getState me w")
       (auto simp: setState_def setItem_def Let_def split: sum.splits prod.splits option.splits)
qed

lemma setState_twice_store:
  assumes idem: "\<And>d d'. f d = Inr d' \<Longrightarrow> f d' = Inr d'"
  shows "items (snd (setState f t me (snd (setState f t me w)))) STORAGE_KEY
           = items (snd (setState f t me w)) STORAGE_KEY"
proof (cases "fst (getState me w)")
  case (Inl e)
  then have "getState me w = (Inl e, w)"
    using getState_Inl [of me w e] by (cases "getState me w") auto
  then have "setState f t me w = (Inl e, w)" by (simp add: setState_def)
  then show ?thesis by simp
next
  case (Inr d)
  define w1 where "w1 = snd (getState me w)"
  have g: "getState me w = (Inr d, w1)" using Inr w1_def by (cases "getState me w") auto
  have g1: "getState me w1 = (Inr d, w1)" using getState_again [OF Inr] w1_def by simp
  show ?thesis
  proof (cases "f d")
    case (Inl e)
    then have "setState f t me w = (Inl e, w1)" "setState f t me w1 = (Inl e, w1)"
      using g g1 by (simp_all add: setState_def)
    then show ?thesis by simp
  next
    case (Inr d')
    show ?thesis
    proof (cases "quota_exceeded w")
      case True
      then have q: "quota_exceeded w1" using w1_def by simp
      have "setState f t me w = (Inl QuotaExceededError, w1)"
           "setState f t me w1 = (Inl QuotaExceededError, w1)"
        using g g1 Inr q by (simp_all add: setState_def setItem_quota)
      then show ?thesis by simp
    next
      case False
      have s1: "setState f t me w =
          (Inr d', broadcast t d' (w1\<lparr>items := (items w1)(STORAGE_KEY \<mapsto> Serialized d')\<rparr>))"
        using setState_ok [of w me d f d' t] False \<open>fst (getState me w) = Inr d\<close> Inr w1_def
        by simp
      define w2 where "w2 = snd (setState f t me w)"
      have i2: "items w2 STORAGE_KEY = Some (Serialized d')" using s1 w2_def by simp
      have q2: "\<not> quota_exceeded w2" using False w2_def by simp
      have g2: "getState me w2 = (Inr d', w2)" by (rule getState_parsed [OF i2])
      have "items (snd (setState f t me w2)) STORAGE_KEY = Some (Serialized d')"
        using setState_ok [of w2 me d' f d' t] q2 g2 idem [OF Inr] by simp
      then show ?thesis using i2 w2_def by simp
    qed
  qed
qed

lemma tab_strings [simp]:
  "String (TabNum 1) = Some ''1''" "String (TabNum 3) = Some ''3''"
  "String (TabNum 4) = Some ''4''"
  by (simp_all add: String_def dec_int_def digit_def MAX_SAFE_INTEGER_def)

lemma String_TabStr [simp]: "String (TabStr s) = Some s"
  by (simp add: String_def)

lemma updateTabState_twice_store:
  assumes "distinct (map fst us)"
  shows "items (snd (updateTabState tabId us me (snd (updateTabState tabId us me w)))) STORAGE_KEY
           = items (snd (updateTabState tabId us me w)) STORAGE_KEY"
proof (cases "String tabId")
  case None
  then show ?thesis by (simp add: updateTabState_def)
next
  case (Some tid)
  have "items (snd (setState (merge_tab tid us) (tab_json tabId) me
                  (snd (setState (merge_tab tid us) (tab_json tabId) me w)))) STORAGE_KEY
          = items (snd (setState (merge_tab tid us) (tab_json tabId) me w)) STORAGE_KEY"
    by (rule setState_twice_store) (rule merge_tab_idem [OF assms])
  then show ?thesis using Some by (simp add: updateTabState_def)
qed

section \<open>Tab 1: delivering a message again\<close>

lemma setState_Inr_store:
  assumes "fst (setState f t me w) = Inr d'"
  shows "items (snd (setState f t me w)) STORAGE_KEY = Some (Serialized d')"
proof -
  obtain r w1 where g: "getState me w = (r, w1)" by (cases "getState me w")
  show ?thesis
  proof (cases r)
    case (Inl e)
    then show ?thesis using assms g by (simp add: setState_def)
  next
    case (Inr d)
    show ?thesis
    proof (cases "f d")
      case (Inl e)
      then show ?thesis using assms g Inr by (simp add: setState_def)
    next
      case fd: (Inr d1)
      show ?thesis
      proof (cases "quota_exceeded w1")
        case True
        then show ?thesis using assms g Inr fd by (simp add: setState_def setItem_quota)
      next
        case False
        then show ?thesis using assms g Inr fd
          by (simp add: setState_def setItem_state JSON_stringify_def)
      qed
    qed
  qed
qed

lemma updateTabState_Inr_store:
  "updateTabState tabId us me w = (Inr d, w1) \<Longrightarrow> items w1 STORAGE_KEY = Some (Serialized d)"
proof (cases "String tabId")
  case None
  assume "updateTabState tabId us me w = (Inr d, w1)"
  then show ?thesis using None by (simp add: updateTabState_def)
next
  case (Some tid)
  assume "updateTabState tabId us me w = (Inr d, w1)"
  then show ?thesis
    using Some setState_Inr_store [of "merge_tab tid us" "tab_json tabId" me w d]
    by (simp add: updateTabState_def)
qed

lemma player_field_parsed:
  "items w STORAGE_KEY = Some (Serialized d) \<Longrightarrow> snd (player_field field me w) = w"
  by (simp add: player_field_def getState_parsed split: sum.splits)

lemma read_collection_parsed:
  "items w STORAGE_KEY = Some (Serialized d) \<Longrightarrow> snd (read_collection field me w) = w"
  using player_field_parsed [of w d field me]
  by (cases "player_field field me w") (auto simp: read_collection_def split: sum.splits)

lemma setupReturnVisit_parsed:
  "items w STORAGE_KEY = Some (Serialized d) \<Longrightarrow> snd (setupReturnVisit me w) = w"
  using read_collection_parsed [of w d "''codeFragments''" me]
  by (cases "read_collection ''codeFragments'' me w")
     (auto simp: setupReturnVisit_def split: sum.splits)

lemma enter3D_local: "fst (snd (enter3D me (l, w))) = l"
  by (simp add: enter3D_def split: prod.splits sum.splits)

lemma placeBonusSymbol_world:
  "snd (snd (placeBonusSymbol me (l, w))) =
     (if bonusSymbolCollected l then w
      else snd (updateTabState (TabNum 1) [(''bonusSymbolAvailable'', JBool True)] me w))"
  by (simp add: placeBonusSymbol_def Let_def split: prod.splits sum.splits)

lemma placeBonusSymbol_collected:
  "bonusSymbolCollected (fst (snd (placeBonusSymbol me (l, w)))) = bonusSymbolCollected l"
  by (simp add: placeBonusSymbol_def Let_def split: prod.splits sum.splits)

lemma placeBonusSymbol_twice:
  "items (snd (snd (placeBonusSymbol me (snd (placeBonusSymbol me (l, w)))))) STORAGE_KEY
     = items (snd (snd (placeBonusSymbol me (l, w)))) STORAGE_KEY"
proof -
  obtain r l1 w1 where p: "placeBonusSymbol me (l, w) = (r, l1, w1)"
    by (cases "placeBonusSymbol me (l, w)") auto
  have c: "bonusSymbolCollected l1 = bonusSymbolCollected l"
    using placeBonusSymbol_collected [of me l w] p by simp
  have w1: "w1 = (if bonusSymbolCollected l then w
      else snd (updateTabState (TabNum 1) [(''bonusSymbolAvailable'', JBool True)] me w))"
    using placeBonusSymbol_world [of me l w] p by simp
  show ?thesis
    using p c w1 placeBonusSymbol_world [of me l1 w1]
      updateTabState_twice_store [of "[(''bonusSymbolAvailable'', JBool True)]" "TabNum 1" me w]
    by simp
qed

lemma illumination_world:
  "snd (snd (case updateTabState (TabNum 1) us me w of
               (Inl e, w1) \<Rightarrow> (Inl e, l, w1)
             | (Inr d, w1) \<Rightarrow>
                 (case setupReturnVisit me w1 of
                    (Inl e, w2) \<Rightarrow> (Inl e, l, w2)
                  | (Inr u, w2) \<Rightarrow> (Inr (), l, w2))))
     = snd (updateTabState (TabNum 1) us me w)"
proof -
  obtain r w1 where u: "updateTabState (TabNum 1) us me w = (r, w1)"
    by (cases "updateTabState (TabNum 1) us me w")
  show ?thesis
  proof (cases r)
    case (Inl e)
    then show ?thesis using u by simp
  next
    case (Inr d)
    then have "items w1 STORAGE_KEY = Some (Serialized d)"
      using updateTabState_Inr_store u by blast
    then have "snd (setupReturnVisit me w1) = w1" by (rule setupReturnVisit_parsed)
    then show ?thesis using u Inr
      by (cases "setupReturnVisit me w1") (auto split: sum.splits)
  qed
qed

lemma tryEnter3D_twice:
  "snd (snd (tryEnter3D me (snd (tryEnter3D me (l, w))))) = snd (snd (tryEnter3D me (l, w)))"
proof (cases "entered3D l")
  case True
  then show ?thesis by (simp add: tryEnter3D_def)
next
  case False
  obtain r w1 where g: "getState me w = (r, w1)" by (cases "getState me w")
  show ?thesis
  proof (cases r)
    case (Inl e)
    then have "w1 = w" using getState_Inl [of me w e] g by simp
    then show ?thesis using False g Inl by (simp add: tryEnter3D_def)
  next
    case (Inr s)
    have g1: "getState me w1 = (Inr s, w1)"
      using getState_again [of me w s] g Inr by simp
    show ?thesis
    proof (cases "get_field (Some s) ''meta''")
      case (Inl e)
      then show ?thesis using False g Inr g1 by (simp add: tryEnter3D_def)
    next
      case m: (Inr meta)
      show ?thesis
      proof (cases "get_field meta ''gameComplete''")
        case (Inl e)
        then show ?thesis using False g Inr g1 m by (simp add: tryEnter3D_def)
      next
        case gc: (Inr c)
        show ?thesis
        proof (cases "c = Some (JBool True)")
          case True
          obtain r2 l2 w2 where e: "enter3D me (l\<lparr>entered3D := True\<rparr>, w1) = (r2, l2, w2)"
            by (cases "enter3D me (l\<lparr>entered3D := True\<rparr>, w1)") auto
          have "l2 = l\<lparr>entered3D := True\<rparr>"
            using enter3D_local [of me "l\<lparr>entered3D := True\<rparr>" w1] e by simp
          then have "entered3D l2" by simp
          moreover have "tryEnter3D me (l, w) = (r2, l2, w2)"
            using False g Inr m gc True e by (simp add: tryEnter3D_def)
          ultimately show ?thesis by (simp add: tryEnter3D_def)
        next
          case no: False
          then show ?thesis using False g Inr g1 m gc by (simp add: tryEnter3D_def)
        qed
      qed
    qed
  qed
qed


lemma bonus_once_eval:
  "\<exists>d. updateTabState (TabNum 1) [(''bonusSymbolAvailable'', JBool True)] 1
         (host True False (Some (Serialized defaultState)))
       = (Inr d, broadcast (JNum 1) d
            ((host True False (Some (Serialized defaultState)))
               \<lparr>items := (items (host True False (Some (Serialized defaultState))))
                           (STORAGE_KEY \<mapsto> Serialized d)\<rparr>))
     \<and> d \<noteq> JNull
     \<and> tab_field d ''1'' ''bonusSymbolAvailable'' = Some (JBool True)
     \<and> merge_tab ''1'' [(''bonusSymbolAvailable'', JBool True)] d = Inr d"
proof -
  let ?w = "host True False (Some (Serialized defaultState))"
  let ?us = "[(''bonusSymbolAvailable'', JBool True)]"
  obtain ps ts where ps: "defaultState = JObj ps" and ts: "map_of ps ''tabs'' = Some (JObj ts)"
    by (simp add: defaultState_def)
  let ?d = "merged ''1'' ?us ps ts"
  have m: "merge_tab ''1'' ?us defaultState = Inr ?d"
    using merge_tab_ok [OF ts, of "''1''" ?us] ps by simp
  have g: "fst (getState 1 ?w) = Inr defaultState" "snd (getState 1 ?w) = ?w"
    by (simp_all add: getState_parsed)
  have u: "updateTabState (TabNum 1) ?us 1 ?w
       = (Inr ?d, broadcast (JNum 1) ?d (?w\<lparr>items := (items ?w)(STORAGE_KEY \<mapsto> Serialized ?d)\<rparr>))"
    using setState_ok [of ?w 1 defaultState "merge_tab ''1'' ?us" ?d "JNum 1"] g m
    by (simp add: updateTabState_def)
  have f: "tab_field ?d ''1'' ''bonusSymbolAvailable'' = Some (JBool True)"
    by (simp add: merged_def tab_field_def tab_record_def update_conv' set_own_conv spread_field)
  have i: "merge_tab ''1'' ?us ?d = Inr ?d"
    by (rule merge_tab_idem [OF _ m]) simp
  show ?thesis using u f i by (auto simp: merged_def)
qed

text \<open>
  Claim C3, as the code has it. Whatever message tab 1's handler gets, and whatever the
  store holds, a second delivery right after the first leaves the persisted text as the
  first left it: the handler assigns constants. The placement of the bonus symbol is
  skipped only once the symbol has been collected; then it changes nothing at all.
\<close>

theorem redelivery_keeps_document:
  "items (snd (snd (level1_onMessage msg me (snd (level1_onMessage msg me (l, w)))))) STORAGE_KEY
     = items (snd (snd (level1_onMessage msg me (l, w)))) STORAGE_KEY
   \<and> (bonusSymbolCollected l \<longrightarrow> placeBonusSymbol me (l, w) = (Inr (), l, w))"
proof -
  let ?B = "msg_is msg ''BACKTRACK_TRIGGER'' ''targetTab'' (JNum 1)"
  let ?M = "msg_is msg ''BACKTRACK_TRIGGER'' ''reason'' (JStr ''midpuzzle'')"
  let ?T = "msg_is msg ''TAB_COMPLETED'' ''completedTab'' (JNum 3)"
  let ?us = "[(''state'', JStr ''illuminated''), (''floorRevealed'', JBool True)]"
  have stop: "items (snd (snd (level1_onMessage msg me (snd (level1_onMessage msg me (l, w))))))
        STORAGE_KEY = items (snd (snd (level1_onMessage msg me (l, w)))) STORAGE_KEY"
    if "\<And>lw. level1_onMessage msg me lw = (Inl e, lw)" for e
    by (simp add: that)
  have place: "items (snd (snd (level1_onMessage msg me (snd (level1_onMessage msg me (l, w))))))
        STORAGE_KEY = items (snd (snd (level1_onMessage msg me (l, w)))) STORAGE_KEY"
    if "\<And>lw. level1_onMessage msg me lw = placeBonusSymbol me lw"
    using placeBonusSymbol_twice [of me l w] by (simp add: that)
  have enter: "items (snd (snd (level1_onMessage msg me (snd (level1_onMessage msg me (l, w))))))
        STORAGE_KEY = items (snd (snd (level1_onMessage msg me (l, w)))) STORAGE_KEY"
    if "\<And>lw. level1_onMessage msg me lw = tryEnter3D me lw"
    using tryEnter3D_twice [of me l w] by (simp add: that)
  have twice: "items (snd (snd (level1_onMessage msg me (snd (level1_onMessage msg me (l, w))))))
        STORAGE_KEY = items (snd (snd (level1_onMessage msg me (l, w)))) STORAGE_KEY"
  proof (cases ?B)
    case (Inl e)
    have "level1_onMessage msg me lw = (Inl e, lw)" for lw
      using Inl by (cases lw) (simp add: level1_onMessage_def)
    then show ?thesis by (rule stop)
  next
    case B: (Inr backtrack)
    show ?thesis
    proof (cases backtrack)
      case True
      show ?thesis
      proof (cases ?M)
        case (Inl e)
        have "level1_onMessage msg me lw = (Inl e, lw)" for lw
          using B True Inl by (cases lw) (simp add: level1_onMessage_def)
        then show ?thesis by (rule stop)
      next
        case M: (Inr midpuzzle)
        show ?thesis
        proof (cases midpuzzle)
          case True
          have "level1_onMessage msg me lw = placeBonusSymbol me lw" for lw
            using B \<open>backtrack\<close> M True by (cases lw) (simp add: level1_onMessage_def)
          then show ?thesis by (rule place)
        next
          case False
          have h: "\<And>l' w'. level1_onMessage msg me (l', w') =
              (case updateTabState (TabNum 1) ?us me w' of
                   (Inl e, w1) \<Rightarrow> (Inl e, l', w1)
                 | (Inr d, w1) \<Rightarrow>
                     (case setupReturnVisit me w1 of
                        (Inl e, w2) \<Rightarrow> (Inl e, l', w2)
                      | (Inr u, w2) \<Rightarrow> (Inr (), l', w2)))"
            using B \<open>backtrack\<close> M False by (simp add: level1_onMessage_def)
          have world: "\<And>l' w'. snd (snd (level1_onMessage msg me (l', w')))
                          = snd (updateTabState (TabNum 1) ?us me w')"
            by (simp only: h illumination_world)
          obtain r l1 w1 where first: "level1_onMessage msg me (l, w) = (r, l1, w1)"
            by (cases "level1_onMessage msg me (l, w)") auto
          have "w1 = snd (updateTabState (TabNum 1) ?us me w)"
            using world [of l w] first by simp
          then show ?thesis
            using first world [of l1 w1] updateTabState_twice_store [of ?us "TabNum 1" me w]
            by simp
        qed
      qed
    next
      case False
      show ?thesis
      proof (cases ?T)
        case (Inl e)
        have "level1_onMessage msg me lw = (Inl e, lw)" for lw
          using B False Inl by (cases lw) (simp add: level1_onMessage_def)
        then show ?thesis by (rule stop)
      next
        case T: (Inr completed)
        show ?thesis
        proof (cases completed)
          case True
          have "level1_onMessage msg me lw = tryEnter3D me lw" for lw
            using B False T True by (cases lw) (simp add: level1_onMessage_def)
          then show ?thesis by (rule enter)
        next
          case nT: False
          have "level1_onMessage msg me lw = (Inr (), lw)" for lw
            using B False T nT by (cases lw) (simp add: level1_onMessage_def)
          then show ?thesis by simp
        qed
      qed
    qed
  qed
  have skip: "bonusSymbolCollected l \<longrightarrow> placeBonusSymbol me (l, w) = (Inr (), l, w)"
    by (simp add: placeBonusSymbol_def)
  show ?thesis using twice skip by blast
qed

theorem redelivery_keeps_document_witness:
  "bonusSymbolCollected ((level1_start True)\<lparr>bonusSymbolCollected := True\<rparr>)
   \<and> placeBonusSymbol 1 ((level1_start True)\<lparr>bonusSymbolCollected := True\<rparr>,
                          host True False (Some (Serialized defaultState)))
     = (Inr (), (level1_start True)\<lparr>bonusSymbolCollected := True\<rparr>,
        host True False (Some (Serialized defaultState)))"
  using redelivery_keeps_document
    [of JNull 1 "(level1_start True)\<lparr>bonusSymbolCollected := True\<rparr>"
        "host True False (Some (Serialized defaultState))"]
  by simp

text \<open>
  Claim C3 as stated fails: the second placement is not skipped. After one delivery the
  document records the placement; the second delivery writes the store again and posts a
  second STATE_CHANGE, so the host is not left as it was.
\<close>

theorem second_placement_not_skipped:
  "stored_field (snd bonus_once) ''1'' ''bonusSymbolAvailable'' = Some (JBool True)
   \<and> persisted (snd bonus_twice) = persisted (snd bonus_once)
   \<and> length (delivered (snd bonus_once)) = 1
   \<and> length (delivered (snd bonus_twice)) = 2
   \<and> snd bonus_twice \<noteq> snd bonus_once"
proof -
  let ?w = "host True False (Some (Serialized defaultState))"
  let ?us = "[(''bonusSymbolAvailable'', JBool True)]"
  obtain d where
    u: "updateTabState (TabNum 1) ?us 1 ?w
         = (Inr d, broadcast (JNum 1) d (?w\<lparr>items := (items ?w)(STORAGE_KEY \<mapsto> Serialized d)\<rparr>))"
    and n: "d \<noteq> JNull"
    and f: "tab_field d ''1'' ''bonusSymbolAvailable'' = Some (JBool True)"
    and i: "merge_tab ''1'' ?us d = Inr d"
    using bonus_once_eval by blast
  let ?w1 = "broadcast (JNum 1) d (?w\<lparr>items := (items ?w)(STORAGE_KEY \<mapsto> Serialized d)\<rparr>)"
  let ?l1 = "(level1_start True)\<lparr>bonusSymbolPlaced := True\<rparr>"
  have once: "bonus_once = (?l1, ?w1)"
    using u by (simp add: bonus_once_def placeBonusSymbol_def level1_start_def)
  have g1: "fst (getState 1 ?w1) = Inr d" "snd (getState 1 ?w1) = ?w1"
    by (simp_all add: getState_parsed)
  have q1: "\<not> quota_exceeded ?w1" by simp
  have u2: "updateTabState (TabNum 1) ?us 1 ?w1
       = (Inr d, broadcast (JNum 1) d (?w1\<lparr>items := (items ?w1)(STORAGE_KEY \<mapsto> Serialized d)\<rparr>))"
    using setState_ok [of ?w1 1 d "merge_tab ''1'' ?us" d "JNum 1"] q1 g1 i
    by (simp add: updateTabState_def)
  let ?w2 = "broadcast (JNum 1) d (?w1\<lparr>items := (items ?w1)(STORAGE_KEY \<mapsto> Serialized d)\<rparr>)"
  have twice: "bonus_twice = (?l1, ?w2)"
    unfolding bonus_twice_def once using u2
    by (simp add: placeBonusSymbol_def level1_start_def)
  have d1: "length (delivered ?w1) = 1"
    by (simp add: broadcast_def postMessage_def fanout_def)
  have d2: "length (delivered ?w2) = 2"
    by (simp add: broadcast_def postMessage_def fanout_def)
  have p1: "persisted ?w1 = Some d" by (simp add: persisted_def)
  have p2: "persisted ?w2 = Some d" by (simp add: persisted_def)
  have ne: "?w2 \<noteq> ?w1"
  proof
    assume "?w2 = ?w1"
    then have "length (delivered ?w2) = length (delivered ?w1)" by (rule arg_cong)
    then show False using d1 d2 by simp
  qed
  show ?thesis
    unfolding once twice snd_conv using f p1 p2 d1 d2 ne by (simp add: stored_field_def)
qed

section \<open>What a merge leaves in the document\<close>









section \<open>Properties of the store\<close>




text \<open>
  Claim C5, as the code has it. When nothing is stored, or the stored text is empty or
  does not parse, and the storage takes the write, \<open>getState\<close> returns the default
  document and leaves exactly its serialisation in the store; the default document is
  structurally valid.
\<close>

theorem getState_recovers_defaults:
  assumes "unreadable (items w STORAGE_KEY)" and "\<not> quota_exceeded w"
  shows "fst (getState me w) = Inr defaultState
       \<and> items (snd (getState me w)) STORAGE_KEY = Some (JSON_stringify defaultState)
       \<and> is_document defaultState"
  using assms by (simp add: getState_init JSON_stringify_def is_document_def defaultState_def tab_default_def)

theorem getState_recovers_defaults_witness:
  "unreadable (items (host False False (Some (Unparsable ''{oops''))) STORAGE_KEY)
   \<and> \<not> quota_exceeded (host False False (Some (Unparsable ''{oops'')))
   \<and> fst (getState 0 (host False False (Some (Unparsable ''{oops'')))) = Inr defaultState
   \<and> items (snd (getState 0 (host False False (Some (Unparsable ''{oops''))))) STORAGE_KEY
       = Some (JSON_stringify defaultState)"
proof -
  have h1: "unreadable (items (host False False (Some (Unparsable ''{oops''))) STORAGE_KEY)"
    by (simp add: unreadable_def)
  have h2: "\<not> quota_exceeded (host False False (Some (Unparsable ''{oops'')))"
    by simp
  show ?thesis
    using h1 h2 getState_recovers_defaults [OF h1 h2, of 0] by simp
qed

text \<open>
  Claim C5 as stated fails for a stored text that parses to something other than a
  document: \<open>42\<close> is returned as it is and stays in the store.
\<close>

theorem getState_parsable_invalid:
  "fst (getState 0 (host True False (Some (Serialized (JNum 42))))) = Inr (JNum 42)
   \<and> \<not> is_document (JNum 42) \<and> JNum 42 \<noteq> defaultState
   \<and> items (snd (getState 0 (host True False (Some (Serialized (JNum 42)))))) STORAGE_KEY
       = Some (Serialized (JNum 42))"
  by (simp add: getState_parsed is_document_def defaultState_def)

text \<open>
  Claim C6 at a failing input. With the quota exhausted, \<open>setState\<close>,
  \<open>updateTabState\<close>, \<open>resetState\<close> and the \<open>getState\<close> that has to write the
  defaults hand the QuotaExceededError of \<open>setItem\<close> to their caller; the store is
  unchanged.
\<close>

theorem write_failure_reaches_caller:
  "setState (\<lambda>s. Inr s) (JNum 1) 0 (host True True (Some (Serialized defaultState)))
     = (Inl QuotaExceededError, host True True (Some (Serialized defaultState)))
   \<and> updateTabState (TabNum 3) [(''backtrackedTo1'', JBool True)] 0
        (host True True (Some (Serialized defaultState)))
     = (Inl QuotaExceededError, host True True (Some (Serialized defaultState)))
   \<and> resetState 0 (host True True (Some (Serialized defaultState)))
     = (Inl QuotaExceededError, host True True (Some (Serialized defaultState)))
   \<and> getState 0 (host True True None) = (Inl QuotaExceededError, host True True None)"
proof -
  let ?w = "host True True (Some (Serialized defaultState))"
  let ?us = "[(''backtrackedTo1'', JBool True)]"
  obtain ps ts where ps: "defaultState = JObj ps" and ts: "map_of ps ''tabs'' = Some (JObj ts)"
    by (simp add: defaultState_def)
  have m: "merge_tab ''3'' ?us defaultState = Inr (merged ''3'' ?us ps ts)"
    using merge_tab_ok [OF ts, of "''3''" ?us] ps by simp
  have s: "setState (\<lambda>s. Inr s) (JNum 1) 0 ?w = (Inl QuotaExceededError, ?w)"
    by (simp add: setState_def getState_parsed setItem_quota)
  have u: "updateTabState (TabNum 3) ?us 0 ?w = (Inl QuotaExceededError, ?w)"
    by (simp add: updateTabState_def setState_def getState_parsed m setItem_quota)
  have r: "resetState 0 ?w = (Inl QuotaExceededError, ?w)"
    by (simp add: resetState_def setItem_quota)
  have g: "getState 0 (host True True None) = (Inl QuotaExceededError, host True True None)"
    by (simp add: getState_init_quota unreadable_def)
  show ?thesis using s u r g by (intro conjI)
qed

text \<open>
  Claim C7. Let one context make a sequence of \<open>setState\<close> calls with pure updaters, on
  a storage that takes the writes. The document read back afterwards is the left fold of
  the updaters, in call order, over the document the first call read; after at least one
  call it is the persisted text.
\<close>

theorem setState_sequence_is_fold:
  assumes "\<not> quota_exceeded w" and "fst (getState me w) = Inr d0"
  shows "fst (getState me (run_sets cs me w)) = Inr (foldl (\<lambda>d f. f d) d0 (map fst cs))
       \<and> (cs \<noteq> [] \<longrightarrow> items (run_sets cs me w) STORAGE_KEY
                = Some (JSON_stringify (foldl (\<lambda>d f. f d) d0 (map fst cs))))"
  using assms
proof (induction cs arbitrary: w d0)
  case Nil
  then show ?case by simp
next
  case (Cons c cs)
  obtain f fromTab where c: "c = (f, fromTab)" by (cases c)
  let ?w' = "snd (setState (\<lambda>d. Inr (f d)) fromTab me w)"
  have st: "setState (\<lambda>d. Inr (f d)) fromTab me w =
    (Inr (f d0), broadcast fromTab (f d0)
       ((snd (getState me w))\<lparr>items := (items (snd (getState me w)))(STORAGE_KEY \<mapsto> Serialized (f d0))\<rparr>))"
    using setState_ok [OF Cons.prems(1) Cons.prems(2), of "\<lambda>d. Inr (f d)" "f d0" fromTab] by simp
  have it: "items ?w' STORAGE_KEY = Some (Serialized (f d0))"
    by (simp add: st)
  have q: "\<not> quota_exceeded ?w'"
    using Cons.prems(1) by (simp add: st)
  have g: "fst (getState me ?w') = Inr (f d0)"
    by (simp add: getState_parsed [OF it])
  have ih: "fst (getState me (run_sets cs me ?w')) = Inr (foldl (\<lambda>d f. f d) (f d0) (map fst cs))
       \<and> (cs \<noteq> [] \<longrightarrow> items (run_sets cs me ?w') STORAGE_KEY
                = Some (JSON_stringify (foldl (\<lambda>d f. f d) (f d0) (map fst cs))))"
    using Cons.IH [OF q g] .
  show ?case
  proof (cases cs)
    case Nil
    then show ?thesis using c it g by (simp add: JSON_stringify_def)
  next
    case (Cons a list)
    then show ?thesis using c ih by simp
  qed
qed

theorem setState_sequence_is_fold_witness:
  "\<not> quota_exceeded (host True False None)
   \<and> fst (getState 0 (host True False None)) = Inr defaultState
   \<and> items (run_sets [(\<lambda>d. JArr [d], JNum 1), (\<lambda>d. JObj [(''was'', d)], JNum 1)] 0
               (host True False None)) STORAGE_KEY
       = Some (Serialized (JObj [(''was'', JArr [defaultState])]))"
proof -
  let ?w = "host True False None"
  have h1: "\<not> quota_exceeded ?w" by simp
  have h2: "fst (getState 0 ?w) = Inr defaultState"
    by (simp add: getState_init unreadable_def)
  show ?thesis
    using h1 h2
      setState_sequence_is_fold [OF h1 h2,
        of "[(\<lambda>d. JArr [d], JNum 1), (\<lambda>d. JObj [(''was'', d)], JNum 1)]"]
    by (simp add: JSON_stringify_def)
qed




section \<open>Properties of the message bus\<close>

lemma wrapped_envelope:
  "wrapped (envelope type fromTab payload) nonce =
     Serialized (JObj [(''type'', JStr type), (''fromTab'', fromTab), (''payload'', payload),
                       (''_nonce'', JNum nonce)])"
  by (simp add: wrapped_def envelope_def spread_def assign_def JSON_stringify_def set_own_name
      plain_index)

lemma listen_wrapped:
  "lsFallbackListen LS_KEY (Some (wrapped (envelope type fromTab payload) nonce))
     = Some (envelope type fromTab payload)"
  by (simp add: wrapped_envelope lsFallbackListen_def) (simp add: envelope_def)

lemma fanout_iff:
  "(c, cb, m) \<in> set (fanout src msg w)
     \<longleftrightarrow> c \<in> set (live w) \<and> Some c \<noteq> src \<and> cb \<in> set (listenerMap w c) \<and> m = msg"
  by (auto simp: fanout_def)

lemma send_delivered:
  "delivered (snd (send type payload fromTab nonce me w)) =
     delivered w @
     (if hasBroadcastChannel w
         \<or> (\<not> quota_exceeded w
              \<and> items w LS_KEY \<noteq> Some (wrapped (envelope type fromTab payload) nonce))
      then fanout (Some me) (envelope type fromTab payload) w
      else [])"
  by (simp add: send_def postMessage_def lsFallbackPost_def setItem_def Let_def listen_wrapped)


lemma envelope_fields:
  "opt_prop (Some (envelope type fromTab payload)) ''type'' = Some (JStr type)"
  "opt_prop (Some (envelope type fromTab payload)) ''fromTab'' = Some fromTab"
  "opt_prop (Some (envelope type fromTab payload)) ''payload'' = Some payload"
  "opt_prop (Some (envelope type fromTab payload)) ''_nonce'' = None"
  by (simp_all add: envelope_def)

lemma onMessage_frame [simp]:
  "live (snd (onMessage v c w)) = live w"
  "items (snd (onMessage v c w)) = items w"
  "quota_exceeded (snd (onMessage v c w)) = quota_exceeded w"
  "hasBroadcastChannel (snd (onMessage v c w)) = hasBroadcastChannel w"
  "delivered (snd (onMessage v c w)) = delivered w"
  by (cases v; simp add: onMessage_def)+

lemma onMessage_registers:
  "set (listenerMap (snd (onMessage (Function cb) c w)) c')
     = (if c' = c then insert cb (set (listenerMap w c)) else set (listenerMap w c'))"
  by (auto simp: onMessage_def)

text \<open>
  Claim C8. Let a handler \<open>cb\<close> be registered with \<open>onMessage\<close> in context \<open>c\<close>,
  and let context \<open>me\<close> then send. Every call the send makes goes to a callback of a
  live context other than \<open>me\<close>, registered before or just now, and gets an envelope
  whose \<open>type\<close> and \<open>payload\<close> are the sent ones, with no nonce; so a handler the
  sender registered itself is not called. When the transport carries the message
  (BroadcastChannel, or a fallback write that succeeds and changes the stored value, which
  a fresh nonce ensures), the new handler is called if \<open>c\<close> is another live context,
  and so is every callback registered before in another live context.
\<close>

theorem send_reaches_other_contexts:
  "\<exists>calls.
     delivered (snd (send type payload fromTab nonce me (snd (onMessage (Function cb) c w))))
       = delivered w @ calls
     \<and> (\<forall>(c', cb', m) \<in> set calls.
            c' \<noteq> me \<and> c' \<in> set (live w)
            \<and> (cb' \<in> set (listenerMap w c') \<or> (c' = c \<and> cb' = cb))
            \<and> opt_prop (Some m) ''type'' = Some (JStr type)
            \<and> opt_prop (Some m) ''payload'' = Some payload
            \<and> opt_prop (Some m) ''_nonce'' = None)
     \<and> ((hasBroadcastChannel w
           \<or> (\<not> quota_exceeded w
                \<and> items w LS_KEY \<noteq> Some (wrapped (envelope type fromTab payload) nonce)))
          \<longrightarrow> (c \<in> set (live w) \<and> c \<noteq> me
                 \<longrightarrow> (c, cb, envelope type fromTab payload) \<in> set calls)
              \<and> (\<forall>c' \<in> set (live w). c' \<noteq> me \<longrightarrow>
                   (\<forall>cb' \<in> set (listenerMap w c').
                      (c', cb', envelope type fromTab payload) \<in> set calls)))"
proof -
  let ?env = "envelope type fromTab payload"
  let ?w1 = "snd (onMessage (Function cb) c w)"
  let ?works = "hasBroadcastChannel w
      \<or> (\<not> quota_exceeded w \<and> items w LS_KEY \<noteq> Some (wrapped ?env nonce))"
  let ?calls = "if ?works then fanout (Some me) ?env ?w1 else []"
  have d: "delivered (snd (send type payload fromTab nonce me ?w1)) = delivered w @ ?calls"
    using send_delivered [of type payload fromTab nonce me ?w1] by simp
  have mem: "(c', cb', m) \<in> set (fanout (Some me) ?env ?w1)
       \<longleftrightarrow> c' \<in> set (live w) \<and> c' \<noteq> me
           \<and> (cb' \<in> set (listenerMap w c') \<or> (c' = c \<and> cb' = cb)) \<and> m = ?env"
    for c' cb' m
    by (auto simp: fanout_iff onMessage_registers)
  have each: "\<forall>(c', cb', m) \<in> set ?calls.
            c' \<noteq> me \<and> c' \<in> set (live w)
            \<and> (cb' \<in> set (listenerMap w c') \<or> (c' = c \<and> cb' = cb))
            \<and> opt_prop (Some m) ''type'' = Some (JStr type)
            \<and> opt_prop (Some m) ''payload'' = Some payload
            \<and> opt_prop (Some m) ''_nonce'' = None"
    by (auto simp: mem envelope_fields)
  have new: "?works \<longrightarrow> (c \<in> set (live w) \<and> c \<noteq> me \<longrightarrow> (c, cb, ?env) \<in> set ?calls)"
    by (auto simp: mem)
  have all: "?works \<longrightarrow> (\<forall>c' \<in> set (live w). c' \<noteq> me \<longrightarrow>
                 (\<forall>cb' \<in> set (listenerMap w c'). (c', cb', ?env) \<in> set ?calls))"
    by (auto simp: mem)
  show ?thesis
    using d each new all by blast
qed

theorem send_reaches_other_contexts_witness:
  "delivered (snd (send ''BACKTRACK_TRIGGER'' (JObj [(''targetTab'', JNum 1)]) (JNum 3) 42 0
                    (snd (onMessage (Function 8) 1 (host False False None)))))
     = [(1, 7, envelope ''BACKTRACK_TRIGGER'' (JNum 3) (JObj [(''targetTab'', JNum 1)])),
        (1, 8, envelope ''BACKTRACK_TRIGGER'' (JNum 3) (JObj [(''targetTab'', JNum 1)]))]
   \<and> delivered (snd (send ''BACKTRACK_TRIGGER'' (JObj [(''targetTab'', JNum 1)]) (JNum 3) 42 0
                    (snd (onMessage (Function 8) 0 (host False False None)))))
     = [(1, 7, envelope ''BACKTRACK_TRIGGER'' (JNum 3) (JObj [(''targetTab'', JNum 1)]))]"
proof -
  let ?p = "JObj [(''targetTab'', JNum 1)]"
  let ?env = "envelope ''BACKTRACK_TRIGGER'' (JNum 3) ?p"
  let ?h = "host False False None"
  obtain calls where
    d: "delivered (snd (send ''BACKTRACK_TRIGGER'' ?p (JNum 3) 42 0
                          (snd (onMessage (Function 8) 1 ?h)))) = delivered ?h @ calls"
    and new: "(hasBroadcastChannel ?h
           \<or> (\<not> quota_exceeded ?h \<and> items ?h LS_KEY \<noteq> Some (wrapped ?env 42)))
          \<longrightarrow> (1 \<in> set (live ?h) \<and> (1::nat) \<noteq> 0 \<longrightarrow> (1, 8, ?env) \<in> set calls)
              \<and> (\<forall>c' \<in> set (live ?h). c' \<noteq> 0 \<longrightarrow>
                   (\<forall>cb' \<in> set (listenerMap ?h c'). (c', cb', ?env) \<in> set calls))"
    using send_reaches_other_contexts [of "''BACKTRACK_TRIGGER''" ?p "JNum 3" 42 0 8 1 ?h]
    by blast
  have heard: "(1, 8, ?env) \<in> set calls \<and> (1, 7, ?env) \<in> set calls"
    using new by simp
  have one: "delivered (snd (send ''BACKTRACK_TRIGGER'' ?p (JNum 3) 42 0
                          (snd (onMessage (Function 8) 1 ?h)))) = [(1, 7, ?env), (1, 8, ?env)]"
    by (simp add: send_delivered fanout_def onMessage_def)
  have own: "delivered (snd (send ''BACKTRACK_TRIGGER'' ?p (JNum 3) 42 0
                          (snd (onMessage (Function 8) 0 ?h)))) = [(1, 7, ?env)]"
    by (simp add: send_delivered fanout_def onMessage_def)
  show ?thesis using heard one own by (intro conjI)
qed



section \<open>Collections and phases\<close>



























section \<open>The backtrack from tab 3 to tab 1\<close>

lemma send_frame [simp]:
  "items (snd (send type payload fromTab nonce me w)) STORAGE_KEY = items w STORAGE_KEY"
  "quota_exceeded (snd (send type payload fromTab nonce me w)) = quota_exceeded w"
  by (simp_all add: send_def postMessage_def lsFallbackPost_def setItem_def Let_def
      LS_KEY_def STORAGE_KEY_def split: option.splits)










lemma open_context_items [simp]: "items (open_context c w) = items w"
  by (simp add: open_context_def)









end
